theory Spec2Isabelle
  imports Main
begin

section \<open>JavaScript values\<close>

text \<open>
  The library works on plain JavaScript objects: the options, the rendering context, the
  front matter and the mapping defaults are all objects that \<^verbatim>\<open>_.extend\<close> merges key by key.
  A value is a primitive, a function (opaque, kept as its source text) or an object, that
  is a map from property names to values. Arrays and fractions are left out: none of the
  options the claims are about holds one, and the glob pattern is only passed on.
\<close>

datatype jsval =
    Undefined
  | Null
  | Bool bool
  | Num int
  | Str string
  | Obj "string \<Rightarrow> jsval option"
  | Fn string

type_synonym obj = "string \<Rightarrow> jsval option"

text \<open>Truthiness, as tested by \<^verbatim>\<open>||\<close>, \<^verbatim>\<open>!\<close> and \<^verbatim>\<open>if\<close>.\<close>

fun truthy :: "jsval \<Rightarrow> bool" where
  "truthy Undefined = False"
| "truthy Null = False"
| "truthy (Bool b) = b"
| "truthy (Num n) = (n \<noteq> 0)"
| "truthy (Str s) = (s \<noteq> [])"
| "truthy (Obj m) = True"
| "truthy (Fn s) = True"

text \<open>\<^verbatim>\<open>a || b\<close>: the left operand when it is truthy, the right one otherwise.\<close>

definition js_or :: "jsval \<Rightarrow> jsval \<Rightarrow> jsval" where
  "js_or a b = (if truthy a then a else b)"

text \<open>\<^verbatim>\<open>o.k\<close> on an object: a missing property reads as \<^verbatim>\<open>undefined\<close>.\<close>

definition field :: "obj \<Rightarrow> string \<Rightarrow> jsval" where
  "field m k = (case m k of None \<Rightarrow> Undefined | Some x \<Rightarrow> x)"

text \<open>The same read on any value; a primitive has none of the properties used here.\<close>

fun get :: "jsval \<Rightarrow> string \<Rightarrow> jsval" where
  "get (Obj m) k = field m k"
| "get x k = Undefined"

text \<open>
  \<^verbatim>\<open>_.extend(target, source)\<close>: every own property of the source is assigned to the target,
  so the source wins on a shared key. A source that is not an object (\<^verbatim>\<open>undefined\<close>, a
  string, a function without properties) contributes nothing.
\<close>

fun js_extend :: "obj \<Rightarrow> jsval \<Rightarrow> obj" where
  "js_extend m (Obj s) = m ++ s"
| "js_extend m x = m"

text \<open>Whether merging a value would assign the key \<open>k\<close>.\<close>

fun sets :: "jsval \<Rightarrow> string \<Rightarrow> bool" where
  "sets (Obj s) k = (s k \<noteq> None)"
| "sets x k = False"

text \<open>Decimal digits of a natural number, for the string conversion of numbers.\<close>

fun digits :: "nat \<Rightarrow> string" where
  "digits n = (if n < 10 then [char_of (48 + n)] else digits (n div 10) @ [char_of (48 + n mod 10)])"

declare digits.simps [simp del]

text \<open>\<^verbatim>\<open>String(x)\<close>, as string concatenation and \<^verbatim>\<open>Array.prototype.join\<close> apply it.\<close>

fun ToString :: "jsval \<Rightarrow> string" where
  "ToString Undefined = ''undefined''"
| "ToString Null = ''null''"
| "ToString (Bool b) = (if b then ''true'' else ''false'')"
| "ToString (Num n) = (if n < 0 then ''-'' @ digits (nat (- n)) else digits (nat n))"
| "ToString (Str s) = s"
| "ToString (Obj m) = ''[object Object]''"
| "ToString (Fn s) = s"

fun join_with :: "string \<Rightarrow> string list \<Rightarrow> string" where
  "join_with s [] = []"
| "join_with s [x] = x"
| "join_with s (x # y # ys) = x @ s @ join_with s (y # ys)"

text \<open>
  \<^verbatim>\<open>xs.join(sep)\<close> on an array of strings: an \<^verbatim>\<open>undefined\<close> separator stands for a comma, any
  other separator is converted to a string.
\<close>

definition js_join :: "jsval \<Rightarrow> string list \<Rightarrow> string" where
  "js_join sep xs = join_with (case sep of Undefined \<Rightarrow> '','' | _ \<Rightarrow> ToString sep) xs"

section \<open>The module state and its collaborators\<close>

text \<open>The page that front-matter extraction returns: \<^verbatim>\<open>{context, content}\<close>.\<close>

record page =
  page_context :: jsval
  page_content :: string

text \<open>
  The mutable fields of the module object \<^verbatim>\<open>verb\<close>. \<^verbatim>\<open>verb.config\<close> is the object returned by
  the config initialiser, or nothing when that result is falsy. \<^verbatim>\<open>verb.options\<close> and
  \<^verbatim>\<open>verb.context\<close> are assigned before they are read, so they start as empty objects.
\<close>

record verb =
  initalized :: bool
  mode_verbose :: jsval
  ext :: jsval
  runner :: obj
  verbrc :: jsval
  options :: obj
  config :: "obj option"
  vcontext :: obj
  layout :: jsval
  page :: "page option"

text \<open>The module object as the file leaves it once loaded.\<close>

definition verb0 :: verb where
  "verb0 = \<lparr> initalized = False, mode_verbose = Bool False, ext = Str ''.md'',
     runner = [''name'' \<mapsto> Str ''Verb'', ''url'' \<mapsto> Str ''https://github.com/assemble/verb''],
     verbrc = Obj Map.empty, options = Map.empty, config = None, vcontext = Map.empty,
     layout = Undefined, page = None \<rparr>"

text \<open>One source-destination mapping returned by glob expansion: \<^verbatim>\<open>{src: [...], dest}\<close>.\<close>

record mapping =
  src :: "string list"
  dest :: string

text \<open>
  The modules the file requires but does not define are parameters. Each is the function
  the file calls, applied to what the call passes; the ones that are handed \<^verbatim>\<open>verb\<close> see the
  module state at the time of the call. They are taken to return their result without
  assigning to \<^verbatim>\<open>verb\<close> or to the options themselves.
  \<^item> \<open>config_init\<close> is \<^verbatim>\<open>require('./lib/config').init\<close>: an object, or nothing for a falsy result.
  \<^item> \<open>tags_resolve\<close> is \<^verbatim>\<open>verb.tags.resolve\<close> together with the scheduler: \<open>Some (n, results)\<close>
    when the callback fires with \<open>results\<close> during the \<open>n\<close>-th call of \<^verbatim>\<open>process.nextTick\<close>
    (\<open>n = 0\<close>: before the loop is reached), \<open>None\<close> when it never fires.
  \<^item> \<open>expandMapping\<close> is \<^verbatim>\<open>file.expandMapping\<close>, which globs the disk it is given.
  \<^item> \<open>relative\<close> is \<^verbatim>\<open>relative(process.cwd(), p)\<close>.
\<close>

record collab =
  cwd :: "jsval \<Rightarrow> jsval"
  configFile_load :: "jsval \<Rightarrow> jsval"
  config_init :: "jsval \<Rightarrow> obj option"
  layout_of :: "verb \<Rightarrow> jsval"
  data_init :: "obj \<Rightarrow> jsval"
  tags_init :: "verb \<Rightarrow> jsval"
  filters_init :: "verb \<Rightarrow> jsval"
  matter :: "string \<Rightarrow> obj \<Rightarrow> page"
  exclusions :: "obj \<Rightarrow> obj \<Rightarrow> obj"
  plugins_init :: "verb \<Rightarrow> jsval"
  template :: "string \<Rightarrow> obj \<Rightarrow> jsval \<Rightarrow> string"
  tags_resolve :: "verb \<Rightarrow> string \<Rightarrow> (nat \<times> string) option"
  postProcess :: "string \<Rightarrow> obj \<Rightarrow> string"
  toc_insert :: "string \<Rightarrow> jsval \<Rightarrow> string"
  relative :: "string \<Rightarrow> string"
  hasExt :: "string \<Rightarrow> jsval"
  expandMapping :: "(string \<Rightarrow> string option) \<Rightarrow> jsval \<Rightarrow> obj \<Rightarrow> mapping list"

section \<open>\<^verbatim>\<open>verb.init\<close>\<close>

text \<open>
  Only the first call takes effect. Installing the mixins into Lo-Dash changes no field of
  the module state.
\<close>

definition init :: "verb \<Rightarrow> jsval \<Rightarrow> verb" where
  "init v opts =
     (let opts = js_or opts (Obj Map.empty) in
      if initalized v then v
      else v\<lparr>initalized := True, mode_verbose := js_or (get opts ''verbose'') (mode_verbose v)\<rparr>)"

section \<open>\<^verbatim>\<open>verb.process\<close>\<close>

text \<open>
  Lines 110 to 123: the caller's options over the default \<^verbatim>\<open>{toc: {maxDepth: 2}}\<close>, then the
  runtime config over both.
\<close>

definition process_opts :: "collab \<Rightarrow> verb \<Rightarrow> jsval \<Rightarrow> obj" where
  "process_opts c v opts0 =
     (let opts = js_extend [''toc'' \<mapsto> Obj [''maxDepth'' \<mapsto> Num 2]] opts0;
          runtimeConfig =
            (if truthy (field opts ''verbrc'') then configFile_load c (cwd c (field opts ''verbrc''))
             else verbrc v)
      in js_extend opts runtimeConfig)"

text \<open>
  Until the exclusion filter replaces it, \<^verbatim>\<open>verb.context\<close> is the very object stored in
  \<^verbatim>\<open>verb.config\<close> (when that one is truthy), so every assignment to the context shows in both.
\<close>

definition set_shared :: "verb \<Rightarrow> obj \<Rightarrow> verb" where
  "set_shared v m = v\<lparr>vcontext := m, config := (case config v of None \<Rightarrow> None | Some x \<Rightarrow> Some m)\<rparr>"

definition merge_shared :: "verb \<Rightarrow> jsval \<Rightarrow> verb" where
  "merge_shared v x = set_shared v (js_extend (vcontext v) x)"

text \<open>After the filter the context is the filter's own result, a fresh object.\<close>

definition merge_context :: "verb \<Rightarrow> jsval \<Rightarrow> verb" where
  "merge_context v x = v\<lparr>vcontext := js_extend (vcontext v) x\<rparr>"

text \<open>
  Lines 127 to 132: the config object becomes the context, its \<^verbatim>\<open>config\<close> property is
  deleted, and the layout is attached to the module.
\<close>

definition context_base :: "collab \<Rightarrow> verb \<Rightarrow> obj \<Rightarrow> verb" where
  "context_base c v0 opts =
     (let v = v0\<lparr>config := config_init c (field opts ''config'')\<rparr>;
          v = set_shared v (case config v of None \<Rightarrow> Map.empty | Some m \<Rightarrow> m);
          v = set_shared v ((vcontext v)(''config'' := None))
      in v\<lparr>layout := layout_of c v\<rparr>)"

text \<open>Lines 135 to 151: the merges from the options down to the front matter.\<close>

definition context_build :: "collab \<Rightarrow> verb \<Rightarrow> string \<Rightarrow> obj \<Rightarrow> verb" where
  "context_build c v0 source opts =
     (let v = merge_shared v0 (Obj opts);
          v = merge_shared v (js_or (field opts ''metadata'') (Obj Map.empty));
          v = merge_shared v (data_init c opts);
          v = merge_shared v (tags_init c v);
          v = merge_shared v (filters_init c v);
          v = merge_shared v (data_init c opts);
          v = v\<lparr>page := Some (matter c source opts)\<rparr>
      in merge_shared v (page_context (matter c source opts)))"

text \<open>Lines 154 to 158: the exclusion filter, the runner, the plugins.\<close>

definition context_finish :: "collab \<Rightarrow> verb \<Rightarrow> obj \<Rightarrow> verb" where
  "context_finish c v0 opts =
     (let v = v0\<lparr>vcontext := exclusions c (vcontext v0) opts\<rparr>;
          v = merge_context v (Obj [''runner'' \<mapsto> Obj (runner v)])
      in merge_context v (plugins_init c v))"

text \<open>Lines 127 to 158: the context is built up, one merge after the other.\<close>

definition process_context :: "collab \<Rightarrow> verb \<Rightarrow> string \<Rightarrow> obj \<Rightarrow> verb" where
  "process_context c v source opts =
     context_finish c (context_build c (context_base c v opts) source opts) opts"

text \<open>
  Lines 110 to 162, up to the call of the tag resolver: the state it is handed, the options
  in effect and the string the template renderer produced.
\<close>

definition process_setup :: "collab \<Rightarrow> verb \<Rightarrow> string \<Rightarrow> jsval \<Rightarrow> verb \<times> obj \<times> string" where
  "process_setup c v0 source opts0 =
     (let opts = process_opts c v0 opts0;
          v = init v0 (Obj (js_extend [''toc'' \<mapsto> Obj [''maxDepth'' \<mapsto> Num 2]] opts0));
          v = v\<lparr>options := opts\<rparr>;
          v = process_context c v source opts;
          settings = js_or (field opts ''settings'') (Obj Map.empty)
      in (v, opts, template c (page_content (matter c source opts)) (vcontext v) settings))"

text \<open>The flag \<^verbatim>\<open>renderDone\<close> as the loop reads it after \<open>k\<close> yields.\<close>

definition renderDone :: "(nat \<times> string) option \<Rightarrow> nat \<Rightarrow> bool" where
  "renderDone cb k = (case cb of None \<Rightarrow> False | Some (n, results) \<Rightarrow> n \<le> k)"

text \<open>
  \<^verbatim>\<open>while (!renderDone) { process.nextTick(); }\<close>, counting the yields. The loop has no
  bound: when the flag is never set it does not return, which is the value \<open>None\<close>.
\<close>

partial_function (option) await :: "(nat \<Rightarrow> bool) \<Rightarrow> nat \<Rightarrow> nat option" where
  "await flag k = (if flag k then Some k else await flag (Suc k))"

declare await.simps [code]

text \<open>The record \<^verbatim>\<open>{verb, context, content, original}\<close> that \<^verbatim>\<open>process\<close> returns.\<close>

record result =
  r_verb :: verb
  r_context :: obj
  r_content :: string
  r_original :: string

text \<open>
  The source is a string, on which \<^verbatim>\<open>src || ''\<close> changes nothing. \<open>None\<close>: the call never
  returns.
\<close>

definition process :: "collab \<Rightarrow> verb \<Rightarrow> string \<Rightarrow> jsval \<Rightarrow> result option" where
  "process c v0 source opts0 =
     (case process_setup c v0 source opts0 of (v, opts, rendered) \<Rightarrow>
        (let cb = tags_resolve c v rendered in
         case await (renderDone cb) 0 of
           None \<Rightarrow> None
         | Some k \<Rightarrow>
             (let rendered = (case cb of None \<Rightarrow> rendered | Some (n, results) \<Rightarrow> results);
                  res = postProcess c rendered opts;
                  res = toc_insert c res (field opts ''toc'')
              in Some \<lparr> r_verb = v, r_context = vcontext v, r_content = res, r_original = source \<rparr>)))"

text \<open>The value a produced context holds under a key; nothing when no context is produced.\<close>

definition produced :: "result option \<Rightarrow> string \<Rightarrow> jsval option" where
  "produced res k = (case res of None \<Rightarrow> None | Some r \<Rightarrow> r_context r k)"

text \<open>
  What the config object, the result of \<^verbatim>\<open>require('./lib/config').init(opts.config)\<close>, holds
  under a key.
\<close>

definition config_value :: "collab \<Rightarrow> obj \<Rightarrow> string \<Rightarrow> jsval option" where
  "config_value c opts k = (case config_init c (field opts ''config'') of None \<Rightarrow> None | Some m \<Rightarrow> m k)"

text \<open>
  What the tag resolver does with the callback it is handed on line 164, in the call that
  \<^verbatim>\<open>process\<close> makes for the given source and options.
\<close>

definition callback :: "collab \<Rightarrow> verb \<Rightarrow> string \<Rightarrow> jsval \<Rightarrow> (nat \<times> string) option" where
  "callback c v0 source opts0 =
     (case process_setup c v0 source opts0 of (v, opts, rendered) \<Rightarrow> tags_resolve c v rendered)"

section \<open>Files, logs and the drivers\<close>

text \<open>
  The disk maps a path to the content of the file there; it holds regular files only.
  What a run does to the outside is
  kept as a trace: each file written and each call of a logger, under the logger's name
  with the arguments of the call.
\<close>

datatype event =
    WriteFile string string
  | Log string "jsval list"

record world =
  vb :: verb
  disk :: "string \<Rightarrow> string option"
  trace :: "event list"

text \<open>
  A call returns a value, throws, or never returns. The only exception raised here is the
  one of \<^verbatim>\<open>file.readFileSync\<close> on a missing file; the only way not to return is the
  loop of \<^verbatim>\<open>process\<close>.
\<close>

datatype error = ENOENT string

datatype 'a outcome = Hangs | Throws error | Returns 'a

fun and_then :: "'a outcome \<Rightarrow> ('a \<Rightarrow> 'b outcome) \<Rightarrow> 'b outcome" where
  "and_then Hangs f = Hangs"
| "and_then (Throws e) f = Throws e"
| "and_then (Returns x) f = f x"

definition emit :: "event \<Rightarrow> world \<Rightarrow> world" where
  "emit e w = w\<lparr>trace := trace w @ [e]\<rparr>"

definition writeFileSync :: "string \<Rightarrow> string \<Rightarrow> world \<Rightarrow> world" where
  "writeFileSync p s w = w\<lparr>disk := (disk w)(p \<mapsto> s), trace := trace w @ [WriteFile p s]\<rparr>"

text \<open>\<^verbatim>\<open>verb.options.src = filepath\<close>.\<close>

definition set_options_src :: "jsval \<Rightarrow> world \<Rightarrow> world" where
  "set_options_src p w = w\<lparr>vb := (vb w)\<lparr>options := (options (vb w))(''src'' \<mapsto> p)\<rparr>\<rparr>"

text \<open>The files written and the errors logged, read off a trace.\<close>

fun writes :: "event list \<Rightarrow> (string \<times> string) list" where
  "writes [] = []"
| "writes (WriteFile p s # es) = (p, s) # writes es"
| "writes (Log l xs # es) = writes es"

fun errors :: "event list \<Rightarrow> jsval list list" where
  "errors [] = []"
| "errors (WriteFile p s # es) = errors es"
| "errors (Log l xs # es) = (if l = ''log.error'' then xs # errors es else errors es)"

subsection \<open>\<^verbatim>\<open>verb.read\<close>\<close>

definition read :: "collab \<Rightarrow> string \<Rightarrow> jsval \<Rightarrow> world \<Rightarrow> (string \<times> world) outcome" where
  "read c source opts0 w0 =
     (let opts = js_or opts0 (Obj Map.empty);
          v = init (vb w0) opts;
          v = v\<lparr>options := js_extend ((options v)(''src'' \<mapsto> cwd c (Str source))) opts\<rparr>;
          w = w0\<lparr>vb := v\<rparr>;
          w = emit (Log ''verbose.write'' []) w;
          w = emit (Log ''verbose.run'' [Str ''processing'', Str (relative c source)]) w
      in case disk w source of
           None \<Rightarrow> Throws (ENOENT source)
         | Some content \<Rightarrow>
             (case process c (vb w) content opts of
                None \<Rightarrow> Hangs
              | Some r \<Rightarrow> Returns (r_content r, w\<lparr>vb := r_verb r\<rparr>)))"

subsection \<open>\<^verbatim>\<open>verb.expand\<close>\<close>

text \<open>Lines 265 and 266: the options over \<^verbatim>\<open>{concat: false}\<close>, with \<^verbatim>\<open>glob\<close> defaulting to \<^verbatim>\<open>{}\<close>.\<close>

definition expand_opts :: "jsval \<Rightarrow> obj" where
  "expand_opts opts0 =
     (let opts = js_extend [''concat'' \<mapsto> Bool False] opts0
      in opts(''glob'' \<mapsto> js_or (field opts ''glob'') (Obj Map.empty)))"

text \<open>Lines 275 to 281: the object literal \<^verbatim>\<open>defaults\<close> and its \<^verbatim>\<open>srcBase\<close>.\<close>

definition expand_base :: "collab \<Rightarrow> verb \<Rightarrow> string \<Rightarrow> obj \<Rightarrow> obj" where
  "expand_base c v target opts =
     (let defaults =
            [''sep'' \<mapsto> js_or (field opts ''sep'') (Str [CHR 0x0A]),
             ''cwd'' \<mapsto> js_or (field opts ''cwd'') (cwd c (Str ''.'')),
             ''ext'' \<mapsto> js_or (ext v) (field opts ''ext''),
             ''destBase'' \<mapsto> Str target]
      in defaults(''srcBase'' \<mapsto> field defaults ''cwd''))"

text \<open>Line 287: the \<^verbatim>\<open>glob\<close> option is merged over them; the result goes to \<^verbatim>\<open>file.expandMapping\<close>.\<close>

definition expand_defaults :: "collab \<Rightarrow> verb \<Rightarrow> string \<Rightarrow> obj \<Rightarrow> obj" where
  "expand_defaults c v target opts = js_extend (expand_base c v target opts) (field opts ''glob'')"

text \<open>Line 283: \<^verbatim>\<open>opts.concat || file.hasExt(dest) || false\<close>.\<close>

definition expand_concat :: "collab \<Rightarrow> string \<Rightarrow> obj \<Rightarrow> jsval" where
  "expand_concat c target opts = js_or (js_or (field opts ''concat'') (hasExt c target)) (Bool False)"

definition not_found :: "string \<Rightarrow> string" where
  "not_found filepath = ''>> Source file '' @ [CHR 0x22] @ filepath @ [CHR 0x22] @ '' not found.''"

text \<open>
  Lines 294 to 301, \<^verbatim>\<open>fp.src.filter(...)\<close>: a path with no file is reported and dropped, the
  others are kept in order.
\<close>

fun filter_src :: "string list \<Rightarrow> world \<Rightarrow> string list \<times> world" where
  "filter_src [] w = ([], w)"
| "filter_src (filepath # rest) w =
     (if disk w filepath = None
      then filter_src rest (emit (Log ''log.error'' [Str (not_found filepath)]) w)
      else (case filter_src rest w of (kept, w') \<Rightarrow> (filepath # kept, w')))"

text \<open>
  Lines 301 to 311, the \<^verbatim>\<open>.map\<close> over the paths that were kept: each one is read and written
  to the mapping's destination at once, or pushed on \<^verbatim>\<open>defer\<close> when concatenating.
\<close>

fun map_src ::
  "collab \<Rightarrow> jsval \<Rightarrow> obj \<Rightarrow> string \<Rightarrow> string list \<Rightarrow> world \<times> string list \<Rightarrow> (world \<times> string list) outcome"
where
  "map_src c conc opts fpdest [] st = Returns st"
| "map_src c conc opts fpdest (filepath # rest) st =
     (case st of (w0, defer) \<Rightarrow>
       (let w = set_options_src (Str filepath) w0;
            w = emit (Log ''log.run'' [Str ''reading'', Str (relative c filepath)]) w
        in if \<not> truthy conc
           then and_then (read c filepath (Obj opts) w)
                  (\<lambda>(content, w').
                     map_src c conc opts fpdest rest
                       (emit (Log ''log.subhead'' [Str ''writing'', Str (relative c fpdest)])
                          (writeFileSync fpdest content w'), defer))
           else map_src c conc opts fpdest rest (w, defer @ [filepath])))"

text \<open>Lines 293 to 312, the \<^verbatim>\<open>.map\<close> over the mappings.\<close>

fun map_mappings ::
  "collab \<Rightarrow> jsval \<Rightarrow> obj \<Rightarrow> mapping list \<Rightarrow> world \<times> string list \<Rightarrow> (world \<times> string list) outcome"
where
  "map_mappings c conc opts [] st = Returns st"
| "map_mappings c conc opts (fp # fps) st =
     (case st of (w, defer) \<Rightarrow>
       (case filter_src (src fp) w of (kept, w') \<Rightarrow>
          and_then (map_src c conc opts (dest fp) kept (w', defer))
            (map_mappings c conc opts fps)))"

text \<open>
  Lines 315 to 322, the \<^verbatim>\<open>.map\<close> over the deferred paths. \<^verbatim>\<open>defer\<close> holds strings only, so
  \<^verbatim>\<open>_.flatten\<close> leaves it as it is.
\<close>

fun read_deferred :: "collab \<Rightarrow> obj \<Rightarrow> string list \<Rightarrow> world \<Rightarrow> (string list \<times> world) outcome" where
  "read_deferred c opts [] w = Returns ([], w)"
| "read_deferred c opts (filepath # rest) w0 =
     (let w = set_options_src (Str filepath) w0;
          w = emit (Log ''log.run'' [Str ''reading'', Str (relative c filepath)]) w
      in and_then (read c filepath (Obj opts) w)
           (\<lambda>(content, w').
              and_then (read_deferred c opts rest w')
                (\<lambda>(contents, w''). Returns (content # contents, w''))))"

text \<open>
  The whole of \<^verbatim>\<open>verb.expand\<close>. Line 273 assigns to the caller's own options object, which
  the function does not read again: \<^verbatim>\<open>opts\<close> is a copy taken before.
\<close>

definition expand :: "collab \<Rightarrow> jsval \<Rightarrow> string \<Rightarrow> jsval \<Rightarrow> world \<Rightarrow> world outcome" where
  "expand c pattern target opts0 w0 =
     (let opts = expand_opts opts0;
          v = init (vb w0) (Obj opts);
          v = v\<lparr>options := (options v)(''dest'' \<mapsto> cwd c (Str target))\<rparr>;
          w = w0\<lparr>vb := v\<rparr>;
          defaults = expand_defaults c v target opts;
          conc = expand_concat c target opts;
          w = emit (Log ''log.write'' []) w;
          w = emit (Log ''log'' [Str (CHR 0x0A # ''  Expanding files:''), pattern]) w
      in and_then (map_mappings c conc opts (expandMapping c (disk w) pattern defaults) (w, []))
           (\<lambda>(w1, defer).
              and_then
                (if truthy conc
                 then and_then (read_deferred c opts defer w1)
                        (\<lambda>(blob, w2).
                           Returns (emit (Log ''log.subhead'' [Str ''writing'', Str (relative c target)])
                                      (writeFileSync target (js_join (field opts ''sep'') blob) w2)))
                 else Returns w1)
                (\<lambda>w3. Returns
                   (emit (Log ''log.success''
                            [Str (''  '' @ ToString (field (runner (vb w3)) ''name'') @ '' [done]'')])
                      (emit (Log ''log.write'' []) w3)))))"

text \<open>The mappings that \<^verbatim>\<open>expand\<close> obtains from \<^verbatim>\<open>file.expandMapping\<close> on line 293.\<close>

definition matched :: "collab \<Rightarrow> jsval \<Rightarrow> string \<Rightarrow> jsval \<Rightarrow> world \<Rightarrow> mapping list" where
  "matched c pattern target opts0 w =
     expandMapping c (disk w) pattern (expand_defaults c (vb w) target (expand_opts opts0))"

text \<open>
  Which paths hold a file when each mapping is reached, in a run that does not concatenate:
  a mapping with a source that is there has its destination written before the next one is
  looked at.
\<close>

fun reached :: "(string \<Rightarrow> bool) \<Rightarrow> mapping list \<Rightarrow> (mapping \<times> (string \<Rightarrow> bool)) list" where
  "reached on_disk [] = []"
| "reached on_disk (fp # fps) =
     (fp, on_disk) # reached (if \<exists>p\<in>set (src fp). on_disk p then on_disk(dest fp := True) else on_disk) fps"

section \<open>A small project to run the drivers on\<close>

text \<open>
  Modelled from the spec: the exclusion filter of \<^verbatim>\<open>lib/exclusions\<close>, which is not among the
  sources. It "removes a configured set of keys from context"; the set is the list \<open>ks\<close>.
\<close>

definition omit :: "string list \<Rightarrow> obj \<Rightarrow> obj" where
  "omit ks m = (\<lambda>k. if k \<in> set ks then None else m k)"

text \<open>
  Stand-ins for the collaborators: a package config with a name, a title and the
  \<^verbatim>\<open>config\<close> property it was loaded from; front matter that sets the title; a renderer, a
  post-processor and a table-of-contents step that leave the text alone; a tag resolver
  whose callback fires during the second yield; an exclusion filter that drops
  \<^verbatim>\<open>verbose\<close>; and a glob that matches three paths, in two mappings.
\<close>

definition project :: collab where
  "project = \<lparr>
     cwd = (\<lambda>p. p),
     configFile_load = (\<lambda>p. Obj Map.empty),
     config_init = (\<lambda>x. Some [''name'' \<mapsto> Str ''pkg'', ''title'' \<mapsto> Str ''A'', ''config'' \<mapsto> x]),
     layout_of = (\<lambda>v. Undefined),
     data_init = (\<lambda>opts. Obj Map.empty),
     tags_init = (\<lambda>v. Obj [''include'' \<mapsto> Fn ''include'']),
     filters_init = (\<lambda>v. Obj Map.empty),
     matter = (\<lambda>s opts. \<lparr>page_context = Obj [''title'' \<mapsto> Str ''C''], page_content = s\<rparr>),
     exclusions = (\<lambda>m opts. omit [''verbose''] m),
     plugins_init = (\<lambda>v. Obj Map.empty),
     template = (\<lambda>s ctx settings. s),
     tags_resolve = (\<lambda>v s. Some (2, s)),
     postProcess = (\<lambda>s opts. s),
     toc_insert = (\<lambda>s toc. s),
     relative = (\<lambda>p. p),
     hasExt = (\<lambda>p. Bool (CHR ''.'' \<in> set p)),
     expandMapping = (\<lambda>fs pattern defaults.
        [\<lparr>src = [''docs/a.md'', ''docs/gone.md''], dest = ''out/a.md''\<rparr>,
         \<lparr>src = [''docs/b.md''], dest = ''out/b.md''\<rparr>]) \<rparr>"

text \<open>The same project with a plugin that brings its own \<^verbatim>\<open>runner\<close>.\<close>

definition project_with_plugin :: collab where
  "project_with_plugin = project\<lparr>plugins_init := (\<lambda>v. Obj [''runner'' \<mapsto> Str ''Assemble''])\<rparr>"

text \<open>The same project with a tag resolver that never calls back.\<close>

definition project_silent :: collab where
  "project_silent = project\<lparr>tags_resolve := (\<lambda>v s. None)\<rparr>"

text \<open>The same project with an exclusion filter that drops \<^verbatim>\<open>config\<close> as well.\<close>

definition project_strict :: collab where
  "project_strict = project\<lparr>exclusions := (\<lambda>m opts. omit [''verbose'', ''config''] m)\<rparr>"

text \<open>Options that name the config file and bring metadata: \<^verbatim>\<open>{config: 'package.json', metadata: {title: 'B', name: 'N'}}\<close>.\<close>

definition with_metadata :: jsval where
  "with_metadata = Obj [''config'' \<mapsto> Str ''package.json'',
                        ''metadata'' \<mapsto> Obj [''title'' \<mapsto> Str ''B'', ''name'' \<mapsto> Str ''N'']]"

text \<open>Options in which config, metadata and front matter all claim the key \<^verbatim>\<open>runner\<close>.\<close>

definition project_runner :: collab where
  "project_runner = project\<lparr>
     config_init := (\<lambda>x. Some [''runner'' \<mapsto> Str ''A'']),
     matter := (\<lambda>s opts. \<lparr>page_context = Obj [''runner'' \<mapsto> Str ''C''], page_content = s\<rparr>)\<rparr>"

definition with_runner :: jsval where
  "with_runner = Obj [''metadata'' \<mapsto> Obj [''runner'' \<mapsto> Str ''B'']]"

text \<open>A disk with two of the three matched files, and the module as loaded.\<close>

definition world0 :: world where
  "world0 = \<lparr> vb = verb0, disk = [''docs/a.md'' \<mapsto> ''alpha'', ''docs/b.md'' \<mapsto> ''beta''], trace = [] \<rparr>"

text \<open>
  The same project with a glob that looks at the defaults it is handed: one source under
  \<^verbatim>\<open>cwd\<close>, its destination under \<^verbatim>\<open>destBase\<close> with the extension \<^verbatim>\<open>ext\<close>.
\<close>

definition project_glob :: collab where
  "project_glob = project\<lparr>expandMapping := (\<lambda>fs pattern defaults.
      [\<lparr>src = [ToString (field defaults ''cwd'') @ ''/a.md''],
        dest = ToString (field defaults ''destBase'') @ ''/a'' @ ToString (field defaults ''ext'')\<rparr>])\<rparr>"

text \<open>Options with a \<^verbatim>\<open>cwd\<close> of their own and a \<^verbatim>\<open>glob\<close> object: \<^verbatim>\<open>{cwd: 'docs', glob: {cwd: 'lib', ext: '.txt'}}\<close>.\<close>

definition with_glob :: jsval where
  "with_glob = Obj [''cwd'' \<mapsto> Str ''docs'',
                    ''glob'' \<mapsto> Obj [''cwd'' \<mapsto> Str ''lib'', ''ext'' \<mapsto> Str ''.txt'']]"

text \<open>A disk with the same file name under both directories.\<close>

definition world_lib :: world where
  "world_lib = \<lparr> vb = verb0, disk = [''docs/a.md'' \<mapsto> ''alpha'', ''lib/a.md'' \<mapsto> ''gamma''], trace = [] \<rparr>"

section \<open>Facts about the model\<close>

subsection \<open>The loop returns exactly when the flag is set\<close>

lemma await_set:
  assumes "await flag k = Some y"
  shows "flag y"
proof (rule await.raw_induct [of "\<lambda>f k y. f y", OF _ assms])
  fix aw :: "(nat \<Rightarrow> bool) \<Rightarrow> nat \<Rightarrow> nat option" and f k y
  assume ih: "\<And>f k y. aw f k = Some y \<Longrightarrow> f y"
    and eq: "(if f k then Some k else aw f (Suc k)) = Some y"
  show "f y"
  proof (cases "f k")
    case True
    with eq show ?thesis by simp
  next
    case False
    with eq have "aw f (Suc k) = Some y" by simp
    then show ?thesis by (rule ih)
  qed
qed

lemma await_never: "await (renderDone None) k = None"
proof (cases "await (renderDone None) k")
  case None then show ?thesis .
next
  case (Some y)
  then have "renderDone None y" by (rule await_set)
  then show ?thesis by (simp add: renderDone_def)
qed

lemma await_fires: "await (renderDone (Some (n, r))) k = Some (max n k)"
proof (induction "n - k" arbitrary: k)
  case 0
  then show ?case by (subst await.simps) (simp add: renderDone_def max_def)
next
  case (Suc d)
  then have "await (renderDone (Some (n, r))) (Suc k) = Some (max n (Suc k))" by simp
  with Suc show ?case by (subst await.simps) (simp add: renderDone_def max_def)
qed

subsection \<open>The merges, key by key\<close>

lemma js_extend_sets: "sets x k \<Longrightarrow> js_extend m x k = Some (get x k)"
  by (cases x) (auto simp: field_def map_add_def split: option.splits)

lemma js_extend_other: "\<not> sets x k \<Longrightarrow> js_extend m x k = m k"
  by (cases x) (auto simp: map_add_def split: option.splits)

lemma vcontext_merge_shared: "vcontext (merge_shared v x) = js_extend (vcontext v) x"
  by (simp add: merge_shared_def set_shared_def)

lemma runner_merge_shared: "runner (merge_shared v x) = runner v"
  by (simp add: merge_shared_def set_shared_def)

lemma runner_context_base: "runner (context_base c v opts) = runner v"
  by (simp add: context_base_def set_shared_def Let_def)

lemma runner_context_build: "runner (context_build c v s opts) = runner v"
  by (simp add: context_build_def Let_def runner_merge_shared)

lemma runner_init: "runner (init v x) = runner v"
  by (simp add: init_def Let_def)

lemma build_front_matter:
  "sets (page_context (matter c s opts)) k \<Longrightarrow>
   vcontext (context_build c v s opts) k = Some (get (page_context (matter c s opts)) k)"
  by (simp add: context_build_def Let_def vcontext_merge_shared js_extend_sets)

lemma build_metadata:
  assumes "sets (field opts ''metadata'') k"
    and "\<not> sets (data_init c opts) k"
    and "\<And>v'. \<not> sets (tags_init c v') k"
    and "\<And>v'. \<not> sets (filters_init c v') k"
    and "\<not> sets (page_context (matter c s opts)) k"
  shows "vcontext (context_build c v s opts) k = Some (get (field opts ''metadata'') k)"
proof -
  from assms(1) have "truthy (field opts ''metadata'')" by (cases "field opts ''metadata''") auto
  then have "js_or (field opts ''metadata'') (Obj Map.empty) = field opts ''metadata''"
    by (simp add: js_or_def)
  with assms show ?thesis
    by (simp add: context_build_def Let_def vcontext_merge_shared js_extend_sets js_extend_other)
qed

lemma finish_key:
  assumes "k \<noteq> ''runner''" and "\<And>v'. \<not> sets (plugins_init c v') k"
  shows "vcontext (context_finish c v opts) k = exclusions c (vcontext v) opts k"
  using assms by (simp add: context_finish_def Let_def merge_context_def js_extend_other)

lemma finish_runner:
  assumes "\<And>v'. \<not> sets (plugins_init c v') ''runner''"
  shows "vcontext (context_finish c v opts) ''runner'' = Some (Obj (runner v))"
  using assms by (simp add: context_finish_def Let_def merge_context_def js_extend_other)

subsection \<open>What \<^verbatim>\<open>process\<close> returns\<close>

lemma process_eq:
  "process c v0 s o0 =
    (case process_setup c v0 s o0 of (v, opts, rendered) \<Rightarrow>
       (case tags_resolve c v rendered of None \<Rightarrow> None
        | Some (n, results) \<Rightarrow>
            Some \<lparr> r_verb = v, r_context = vcontext v,
                   r_content = toc_insert c (postProcess c results opts) (field opts ''toc''),
                   r_original = s \<rparr>))"
  by (auto simp: process_def Let_def await_never await_fires split: prod.splits option.splits)


lemma process_returns:
  assumes "\<And>v r. tags_resolve c v r \<noteq> None"
  shows "\<exists>res. process c v s o0 = Some res"
proof -
  obtain v' opts rendered where st: "process_setup c v s o0 = (v', opts, rendered)"
    by (cases "process_setup c v s o0") auto
  from assms [of v' rendered] obtain n results
    where "tags_resolve c v' rendered = Some (n, results)"
    by (cases "tags_resolve c v' rendered") auto
  with st show ?thesis by (simp add: process_eq)
qed

subsection \<open>Reading a file leaves the disk and the written files alone\<close>

lemma writes_append: "writes (xs @ ys) = writes xs @ writes ys"
  by (induction xs rule: writes.induct) auto

lemma errors_append: "errors (xs @ ys) = errors xs @ errors ys"
  by (induction xs rule: errors.induct) auto

lemma read_ok:
  assumes "\<And>v r. tags_resolve c v r \<noteq> None" and "disk w p = Some s"
  shows "\<exists>content w'. read c p o0 w = Returns (content, w') \<and> disk w' = disk w
           \<and> writes (trace w') = writes (trace w) \<and> errors (trace w') = errors (trace w)"
proof -
  let ?opts = "js_or o0 (Obj Map.empty)"
  let ?v = "(init (vb w) ?opts)\<lparr>options :=
      js_extend ((options (init (vb w) ?opts))(''src'' \<mapsto> cwd c (Str p))) ?opts\<rparr>"
  from process_returns [OF assms(1)] obtain res where "process c ?v s ?opts = Some res"
    by blast
  with assms(2) show ?thesis
    by (simp add: read_def Let_def emit_def writes_append errors_append)
qed

subsection \<open>The loops of \<^verbatim>\<open>expand\<close>\<close>

lemma filter_src_kept: "fst (filter_src ps w) = filter (\<lambda>p. disk w p \<noteq> None) ps"
  by (induction ps arbitrary: w) (auto simp: emit_def case_prod_beta)

lemma filter_src_disk: "disk (snd (filter_src ps w)) = disk w"
  by (induction ps arbitrary: w) (auto simp: emit_def case_prod_beta)

lemma filter_src_writes: "writes (trace (snd (filter_src ps w))) = writes (trace w)"
  by (induction ps arbitrary: w) (auto simp: emit_def writes_append case_prod_beta)

lemma filter_src_errors:
  "errors (trace (snd (filter_src ps w))) =
     errors (trace w) @ map (\<lambda>p. [Str (not_found p)]) (filter (\<lambda>p. disk w p = None) ps)"
  by (induction ps arbitrary: w) (auto simp: emit_def errors_append filter_src_disk case_prod_beta)

lemma map_src_direct:
  assumes "\<And>v r. tags_resolve c v r \<noteq> None" and "\<not> truthy conc"
    and "\<forall>p\<in>set kept. disk w p \<noteq> None"
  shows "\<exists>w'. map_src c conc opts d kept (w, acc) = Returns (w', acc)
           \<and> (\<forall>p. disk w p \<noteq> None \<longrightarrow> disk w' p \<noteq> None)
           \<and> (\<forall>p. p \<noteq> d \<longrightarrow> disk w' p = disk w p)
           \<and> map fst (writes (trace w')) = map fst (writes (trace w)) @ map (\<lambda>p. d) kept
           \<and> errors (trace w') = errors (trace w)"
  using assms(3)
proof (induction kept arbitrary: w)
  case Nil
  then show ?case by simp
next
  case (Cons p ps)
  let ?w1 = "emit (Log ''log.run'' [Str ''reading'', Str (relative c p)]) (set_options_src (Str p) w)"
  from Cons.prems obtain s where "disk ?w1 p = Some s"
    by (auto simp: emit_def set_options_src_def)
  from read_ok [OF assms(1) this] obtain content w2 where
    rd: "read c p (Obj opts) ?w1 = Returns (content, w2)" and d2: "disk w2 = disk ?w1"
    and wr2: "writes (trace w2) = writes (trace ?w1)" and er2: "errors (trace w2) = errors (trace ?w1)"
    by blast
  let ?w3 = "emit (Log ''log.subhead'' [Str ''writing'', Str (relative c d)]) (writeFileSync d content w2)"
  have d3: "disk ?w3 = (disk w)(d \<mapsto> content)"
    using d2 by (simp add: emit_def writeFileSync_def set_options_src_def)
  then have "\<forall>q\<in>set ps. disk ?w3 q \<noteq> None" using Cons.prems by auto
  from Cons.IH [OF this] obtain w' where
    ih: "map_src c conc opts d ps (?w3, acc) = Returns (w', acc)"
      "\<forall>q. disk ?w3 q \<noteq> None \<longrightarrow> disk w' q \<noteq> None"
      "\<forall>q. q \<noteq> d \<longrightarrow> disk w' q = disk ?w3 q"
      "map fst (writes (trace w')) = map fst (writes (trace ?w3)) @ map (\<lambda>p. d) ps"
      "errors (trace w') = errors (trace ?w3)"
    by blast
  have tr3: "map fst (writes (trace ?w3)) = map fst (writes (trace w)) @ [d]"
    "errors (trace ?w3) = errors (trace w)"
    using wr2 er2 by (simp_all add: emit_def writeFileSync_def set_options_src_def writes_append errors_append)
  have "map_src c conc opts d (p # ps) (w, acc) = Returns (w', acc)"
    using assms(2) rd ih(1) by (simp add: Let_def)
  moreover have "\<forall>q. disk w q \<noteq> None \<longrightarrow> disk w' q \<noteq> None" using ih(2) d3 by auto
  moreover have "\<forall>q. q \<noteq> d \<longrightarrow> disk w' q = disk w q" using ih(3) d3 by auto
  ultimately show ?case using ih(4,5) tr3 by auto
qed

lemma map_src_defer:
  assumes "truthy conc"
  shows "\<exists>w'. map_src c conc opts d kept (w, acc) = Returns (w', acc @ kept)
           \<and> disk w' = disk w \<and> writes (trace w') = writes (trace w)
           \<and> errors (trace w') = errors (trace w)"
proof (induction kept arbitrary: w acc)
  case Nil
  then show ?case by simp
next
  case (Cons p ps)
  let ?w1 = "emit (Log ''log.run'' [Str ''reading'', Str (relative c p)]) (set_options_src (Str p) w)"
  from Cons.IH [of ?w1 "acc @ [p]"] obtain w' where
    "map_src c conc opts d ps (?w1, acc @ [p]) = Returns (w', (acc @ [p]) @ ps)"
    "disk w' = disk ?w1" "writes (trace w') = writes (trace ?w1)" "errors (trace w') = errors (trace ?w1)"
    by blast
  with assms show ?case
    by (simp add: Let_def emit_def set_options_src_def writes_append errors_append)
qed


lemma map_mappings_direct:
  assumes "\<And>v r. tags_resolve c v r \<noteq> None" and "\<not> truthy conc"
    and "\<forall>fp\<in>set fps. \<forall>fp'\<in>set fps. dest fp \<notin> set (src fp')"
  shows "\<exists>w'. map_mappings c conc opts fps (w, acc) = Returns (w', acc)
           \<and> (\<forall>p. disk w p \<noteq> None \<longrightarrow> disk w' p \<noteq> None)
           \<and> (\<forall>p. p \<notin> dest ` set fps \<longrightarrow> disk w' p = disk w p)
           \<and> map fst (writes (trace w')) = map fst (writes (trace w))
                @ concat (map (\<lambda>fp. map (\<lambda>p. dest fp) (filter (\<lambda>p. disk w p \<noteq> None) (src fp))) fps)
           \<and> errors (trace w') = errors (trace w)
                @ concat (map (\<lambda>fp. map (\<lambda>p. [Str (not_found p)]) (filter (\<lambda>p. disk w p = None) (src fp))) fps)"
  using assms(3)
proof (induction fps arbitrary: w)
  case Nil
  then show ?case by simp
next
  case (Cons fp fps)
  let ?kept = "filter (\<lambda>p. disk w p \<noteq> None) (src fp)"
  let ?w1 = "snd (filter_src (src fp) w)"
  have fs: "filter_src (src fp) w = (?kept, ?w1)"
    by (simp add: prod_eq_iff filter_src_kept)
  have d1: "disk ?w1 = disk w" by (rule filter_src_disk)
  then have "\<forall>p\<in>set ?kept. disk ?w1 p \<noteq> None" by simp
  from map_src_direct [OF assms(1,2) this, of opts "dest fp" acc] obtain w2 where
    m: "map_src c conc opts (dest fp) ?kept (?w1, acc) = Returns (w2, acc)"
      "\<forall>p. disk ?w1 p \<noteq> None \<longrightarrow> disk w2 p \<noteq> None"
      "\<forall>p. p \<noteq> dest fp \<longrightarrow> disk w2 p = disk ?w1 p"
      "map fst (writes (trace w2)) = map fst (writes (trace ?w1)) @ map (\<lambda>p. dest fp) ?kept"
      "errors (trace w2) = errors (trace ?w1)"
    by blast
  from Cons.prems have sep: "\<forall>g\<in>set fps. \<forall>g'\<in>set fps. dest g \<notin> set (src g')" by simp
  from Cons.IH [OF this, of w2] obtain w' where
    ih: "map_mappings c conc opts fps (w2, acc) = Returns (w', acc)"
      "\<forall>p. disk w2 p \<noteq> None \<longrightarrow> disk w' p \<noteq> None"
      "\<forall>p. p \<notin> dest ` set fps \<longrightarrow> disk w' p = disk w2 p"
      "map fst (writes (trace w')) = map fst (writes (trace w2))
         @ concat (map (\<lambda>g. map (\<lambda>p. dest g) (filter (\<lambda>p. disk w2 p \<noteq> None) (src g))) fps)"
      "errors (trace w') = errors (trace w2)
         @ concat (map (\<lambda>g. map (\<lambda>p. [Str (not_found p)]) (filter (\<lambda>p. disk w2 p = None) (src g))) fps)"
    by blast
  have same: "disk w2 p = disk w p" if "g \<in> set fps" and "p \<in> set (src g)" for g p
  proof -
    from Cons.prems that have "p \<noteq> dest fp" by auto
    with m(3) d1 show ?thesis by simp
  qed
  have f1: "map (\<lambda>g. map (\<lambda>p. dest g) (filter (\<lambda>p. disk w2 p \<noteq> None) (src g))) fps
          = map (\<lambda>g. map (\<lambda>p. dest g) (filter (\<lambda>p. disk w p \<noteq> None) (src g))) fps"
    by (rule map_cong [OF refl]) (simp add: same cong: filter_cong)
  have f2: "map (\<lambda>g. map (\<lambda>p. [Str (not_found p)]) (filter (\<lambda>p. disk w2 p = None) (src g))) fps
          = map (\<lambda>g. map (\<lambda>p. [Str (not_found p)]) (filter (\<lambda>p. disk w p = None) (src g))) fps"
    by (rule map_cong [OF refl]) (simp add: same cong: filter_cong)
  have run: "map_mappings c conc opts (fp # fps) (w, acc) = Returns (w', acc)"
    using m(1) ih(1) by (simp add: case_prod_beta filter_src_kept)
  have k1: "\<forall>p. disk w p \<noteq> None \<longrightarrow> disk w' p \<noteq> None"
    using m(2) ih(2) d1 by auto
  have k2: "\<forall>p. p \<notin> dest ` set (fp # fps) \<longrightarrow> disk w' p = disk w p"
    using m(3) ih(3) d1 by auto
  have k3: "map fst (writes (trace w')) = map fst (writes (trace w))
      @ concat (map (\<lambda>g. map (\<lambda>p. dest g) (filter (\<lambda>p. disk w p \<noteq> None) (src g))) (fp # fps))"
    by (simp only: ih(4) m(4) f1 filter_src_writes list.map concat.simps append_assoc)
  have k4: "errors (trace w') = errors (trace w)
      @ concat (map (\<lambda>g. map (\<lambda>p. [Str (not_found p)]) (filter (\<lambda>p. disk w p = None) (src g))) (fp # fps))"
    by (simp only: ih(5) m(5) f2 filter_src_errors list.map concat.simps append_assoc)
  from run k1 k2 k3 k4 show ?case by blast
qed

lemma map_src_direct_disk:
  assumes "\<And>v r. tags_resolve c v r \<noteq> None" and "\<not> truthy conc"
    and "\<forall>p\<in>set kept. disk w p \<noteq> None"
  shows "\<exists>w'. map_src c conc opts d kept (w, acc) = Returns (w', acc)
           \<and> (\<lambda>p. disk w' p \<noteq> None) = (if kept = [] then (\<lambda>p. disk w p \<noteq> None) else (\<lambda>p. disk w p \<noteq> None)(d := True))
           \<and> map fst (writes (trace w')) = map fst (writes (trace w)) @ map (\<lambda>p. d) kept
           \<and> errors (trace w') = errors (trace w)"
  using assms(3)
proof (induction kept arbitrary: w)
  case Nil
  then show ?case by simp
next
  case (Cons p ps)
  let ?w1 = "emit (Log ''log.run'' [Str ''reading'', Str (relative c p)]) (set_options_src (Str p) w)"
  from Cons.prems obtain s where "disk ?w1 p = Some s"
    by (auto simp: emit_def set_options_src_def)
  from read_ok [OF assms(1) this] obtain content w2 where
    rd: "read c p (Obj opts) ?w1 = Returns (content, w2)" and d2: "disk w2 = disk ?w1"
    and wr2: "writes (trace w2) = writes (trace ?w1)" and er2: "errors (trace w2) = errors (trace ?w1)"
    by blast
  let ?w3 = "emit (Log ''log.subhead'' [Str ''writing'', Str (relative c d)]) (writeFileSync d content w2)"
  have d3: "disk ?w3 = (disk w)(d \<mapsto> content)"
    using d2 by (simp add: emit_def writeFileSync_def set_options_src_def)
  then have "\<forall>q\<in>set ps. disk ?w3 q \<noteq> None" using Cons.prems by auto
  from Cons.IH [OF this] obtain w' where
    ih: "map_src c conc opts d ps (?w3, acc) = Returns (w', acc)"
      "(\<lambda>q. disk w' q \<noteq> None) = (if ps = [] then (\<lambda>q. disk ?w3 q \<noteq> None) else (\<lambda>q. disk ?w3 q \<noteq> None)(d := True))"
      "map fst (writes (trace w')) = map fst (writes (trace ?w3)) @ map (\<lambda>p. d) ps"
      "errors (trace w') = errors (trace ?w3)"
    by blast
  have tr3: "map fst (writes (trace ?w3)) = map fst (writes (trace w)) @ [d]"
    "errors (trace ?w3) = errors (trace w)"
    using wr2 er2 by (simp_all add: emit_def writeFileSync_def set_options_src_def writes_append errors_append)
  have "map_src c conc opts d (p # ps) (w, acc) = Returns (w', acc)"
    using assms(2) rd ih(1) by (simp add: Let_def)
  moreover have "(\<lambda>q. disk w' q \<noteq> None) = (\<lambda>q. disk w q \<noteq> None)(d := True)"
    unfolding ih(2) d3 by (auto simp: fun_eq_iff)
  ultimately show ?case using ih(3,4) tr3 by auto
qed

lemma map_mappings_reached:
  assumes "\<And>v r. tags_resolve c v r \<noteq> None" and "\<not> truthy conc"
  shows "\<exists>w'. map_mappings c conc opts fps (w, acc) = Returns (w', acc)
           \<and> map fst (writes (trace w')) = map fst (writes (trace w))
                @ concat (map (\<lambda>(fp, on_disk). map (\<lambda>p. dest fp) (filter on_disk (src fp)))
                    (reached (\<lambda>p. disk w p \<noteq> None) fps))
           \<and> errors (trace w') = errors (trace w)
                @ concat (map (\<lambda>(fp, on_disk). map (\<lambda>p. [Str (not_found p)]) (filter (\<lambda>p. \<not> on_disk p) (src fp)))
                    (reached (\<lambda>p. disk w p \<noteq> None) fps))"
proof (induction fps arbitrary: w)
  case Nil
  then show ?case by simp
next
  case (Cons fp fps)
  let ?ex = "\<lambda>p. disk w p \<noteq> None"
  let ?kept = "filter ?ex (src fp)"
  let ?w1 = "snd (filter_src (src fp) w)"
  have d1: "disk ?w1 = disk w" by (rule filter_src_disk)
  then have "\<forall>p\<in>set ?kept. disk ?w1 p \<noteq> None" by simp
  from map_src_direct_disk [OF assms this, of opts "dest fp" acc] obtain w2 where
    m: "map_src c conc opts (dest fp) ?kept (?w1, acc) = Returns (w2, acc)"
      "(\<lambda>p. disk w2 p \<noteq> None) = (if ?kept = [] then (\<lambda>p. disk ?w1 p \<noteq> None) else (\<lambda>p. disk ?w1 p \<noteq> None)(dest fp := True))"
      "map fst (writes (trace w2)) = map fst (writes (trace ?w1)) @ map (\<lambda>p. dest fp) ?kept"
      "errors (trace w2) = errors (trace ?w1)"
    by blast
  have nx: "(\<lambda>p. disk w2 p \<noteq> None) = (if \<exists>p\<in>set (src fp). ?ex p then ?ex(dest fp := True) else ?ex)"
    unfolding m(2) d1 by (auto simp: filter_empty_conv)
  from Cons.IH [of w2] obtain w' where
    ih: "map_mappings c conc opts fps (w2, acc) = Returns (w', acc)"
      "map fst (writes (trace w')) = map fst (writes (trace w2))
         @ concat (map (\<lambda>(g, on_disk). map (\<lambda>p. dest g) (filter on_disk (src g)))
             (reached (\<lambda>p. disk w2 p \<noteq> None) fps))"
      "errors (trace w') = errors (trace w2)
         @ concat (map (\<lambda>(g, on_disk). map (\<lambda>p. [Str (not_found p)]) (filter (\<lambda>p. \<not> on_disk p) (src g)))
             (reached (\<lambda>p. disk w2 p \<noteq> None) fps))"
    by blast
  have run: "map_mappings c conc opts (fp # fps) (w, acc) = Returns (w', acc)"
    using m(1) ih(1) by (simp add: case_prod_beta filter_src_kept)
  have k3: "map fst (writes (trace w')) = map fst (writes (trace w))
      @ concat (map (\<lambda>(g, on_disk). map (\<lambda>p. dest g) (filter on_disk (src g)))
          (reached ?ex (fp # fps)))"
    unfolding ih(2) m(3) nx by (simp add: filter_src_writes)
  have k4: "errors (trace w') = errors (trace w)
      @ concat (map (\<lambda>(g, on_disk). map (\<lambda>p. [Str (not_found p)]) (filter (\<lambda>p. \<not> on_disk p) (src g)))
          (reached ?ex (fp # fps)))"
    unfolding ih(3) m(4) nx by (simp add: filter_src_errors)
  from run k3 k4 show ?case by blast
qed

lemma map_mappings_defer:
  assumes "truthy conc"
  shows "\<exists>w'. map_mappings c conc opts fps (w, acc)
             = Returns (w', acc @ filter (\<lambda>p. disk w p \<noteq> None) (concat (map src fps)))
           \<and> disk w' = disk w \<and> writes (trace w') = writes (trace w)
           \<and> errors (trace w') = errors (trace w)
                @ map (\<lambda>p. [Str (not_found p)]) (filter (\<lambda>p. disk w p = None) (concat (map src fps)))"
proof (induction fps arbitrary: w acc)
  case Nil
  then show ?case by simp
next
  case (Cons fp fps)
  let ?kept = "filter (\<lambda>p. disk w p \<noteq> None) (src fp)"
  let ?w1 = "snd (filter_src (src fp) w)"
  have fs: "filter_src (src fp) w = (?kept, ?w1)"
    by (simp add: prod_eq_iff filter_src_kept)
  from map_src_defer [OF assms, of c opts "dest fp" ?kept ?w1 acc] obtain w2 where
    m: "map_src c conc opts (dest fp) ?kept (?w1, acc) = Returns (w2, acc @ ?kept)"
      "disk w2 = disk ?w1" "writes (trace w2) = writes (trace ?w1)"
      "errors (trace w2) = errors (trace ?w1)"
    by blast
  from Cons.IH [of w2 "acc @ ?kept"] obtain w' where
    ih: "map_mappings c conc opts fps (w2, acc @ ?kept)
           = Returns (w', (acc @ ?kept) @ filter (\<lambda>p. disk w2 p \<noteq> None) (concat (map src fps)))"
      "disk w' = disk w2" "writes (trace w') = writes (trace w2)"
      "errors (trace w') = errors (trace w2)
         @ map (\<lambda>p. [Str (not_found p)]) (filter (\<lambda>p. disk w2 p = None) (concat (map src fps)))"
    by blast
  have d2: "disk w2 = disk w" using m(2) by (simp add: filter_src_disk)
  have "map_mappings c conc opts (fp # fps) (w, acc)
          = Returns (w', acc @ filter (\<lambda>p. disk w p \<noteq> None) (concat (map src (fp # fps))))"
    using m(1) ih(1) d2 by (simp add: case_prod_beta filter_src_kept)
  moreover have "disk w' = disk w" using ih(2) d2 by simp
  moreover have "writes (trace w') = writes (trace w)"
    using ih(3) m(3) by (simp add: filter_src_writes)
  moreover have "errors (trace w') = errors (trace w)
      @ map (\<lambda>p. [Str (not_found p)]) (filter (\<lambda>p. disk w p = None) (concat (map src (fp # fps))))"
    using ih(4) m(4) d2 by (simp add: filter_src_errors)
  ultimately show ?case by blast
qed

lemma read_deferred_ok:
  assumes "\<And>v r. tags_resolve c v r \<noteq> None" and "\<forall>p\<in>set ps. disk w p \<noteq> None"
  shows "\<exists>blob w'. read_deferred c opts ps w = Returns (blob, w') \<and> length blob = length ps
           \<and> disk w' = disk w \<and> writes (trace w') = writes (trace w)
           \<and> errors (trace w') = errors (trace w)"
  using assms(2)
proof (induction ps arbitrary: w)
  case Nil
  then show ?case by simp
next
  case (Cons p ps)
  let ?w1 = "emit (Log ''log.run'' [Str ''reading'', Str (relative c p)]) (set_options_src (Str p) w)"
  from Cons.prems obtain s where "disk ?w1 p = Some s"
    by (auto simp: emit_def set_options_src_def)
  from read_ok [OF assms(1) this] obtain content w2 where
    rd: "read c p (Obj opts) ?w1 = Returns (content, w2)" and d2: "disk w2 = disk ?w1"
    and wr2: "writes (trace w2) = writes (trace ?w1)" and er2: "errors (trace w2) = errors (trace ?w1)"
    by blast
  have d2': "disk w2 = disk w" using d2 by (simp add: emit_def set_options_src_def)
  then have "\<forall>q\<in>set ps. disk w2 q \<noteq> None" using Cons.prems by simp
  from Cons.IH [OF this] obtain blob w' where
    ih: "read_deferred c opts ps w2 = Returns (blob, w')" "length blob = length ps"
      "disk w' = disk w2" "writes (trace w') = writes (trace w2)" "errors (trace w') = errors (trace w2)"
    by blast
  have "read_deferred c opts (p # ps) w = Returns (content # blob, w')"
    using rd ih(1) by (simp add: Let_def)
  moreover have "writes (trace w') = writes (trace w)" "errors (trace w') = errors (trace w)"
    using ih(4,5) wr2 er2 by (simp_all add: emit_def set_options_src_def writes_append errors_append)
  ultimately show ?case using ih(2,3) d2' by auto
qed


subsection \<open>The options and the runs of \<^verbatim>\<open>expand\<close>\<close>

lemma field_expand_opts:
  "k \<noteq> ''glob'' \<Longrightarrow> k \<noteq> ''concat'' \<Longrightarrow> field (expand_opts o0) k = get o0 k"
  by (cases o0) (auto simp: expand_opts_def Let_def field_def map_add_def split: option.splits)

lemma glob_expand_opts: "field (expand_opts o0) ''glob'' = js_or (get o0 ''glob'') (Obj Map.empty)"
  by (cases o0) (auto simp: expand_opts_def Let_def field_def map_add_def split: option.splits)

lemma truthy_concat_opts: "truthy (field (expand_opts o0) ''concat'') = truthy (get o0 ''concat'')"
  by (cases o0) (auto simp: expand_opts_def Let_def field_def map_add_def split: option.splits)

lemma expand_concat_iff:
  "truthy (expand_concat c t (expand_opts o0)) = (truthy (get o0 ''concat'') \<or> truthy (hasExt c t))"
  by (auto simp: expand_concat_def js_or_def truthy_concat_opts)

lemma ext_init: "ext (init v x) = ext v"
  by (simp add: init_def Let_def)

lemma expand_defaults_ext: "ext v = ext v' \<Longrightarrow> expand_defaults c v t opts = expand_defaults c v' t opts"
  by (simp add: expand_defaults_def expand_base_def)

text \<open>
  The run that does not concatenate, when no destination is among the matched sources: the
  files the run writes do not change which sources exist, and "on the disk" can be read
  at the start.
\<close>

lemma expand_direct:
  assumes "\<And>v r. tags_resolve c v r \<noteq> None"
    and "\<not> truthy (get o0 ''concat'')" and "\<not> truthy (hasExt c t)"
    and "\<forall>fp\<in>set (matched c pat t o0 w). \<forall>fp'\<in>set (matched c pat t o0 w). dest fp \<notin> set (src fp')"
  shows "\<exists>w'. expand c pat t o0 w = Returns w'
           \<and> map fst (writes (trace w')) = map fst (writes (trace w))
                @ concat (map (\<lambda>fp. map (\<lambda>p. dest fp) (filter (\<lambda>p. disk w p \<noteq> None) (src fp)))
                    (matched c pat t o0 w))
           \<and> errors (trace w') = errors (trace w)
                @ concat (map (\<lambda>fp. map (\<lambda>p. [Str (not_found p)]) (filter (\<lambda>p. disk w p = None) (src fp)))
                    (matched c pat t o0 w))"
proof -
  let ?opts = "expand_opts o0"
  let ?v = "(init (vb w) (Obj ?opts))\<lparr>options := (options (init (vb w) (Obj ?opts)))(''dest'' \<mapsto> cwd c (Str t))\<rparr>"
  let ?ws = "emit (Log ''log'' [Str (CHR 0x0A # ''  Expanding files:''), pat])
               (emit (Log ''log.write'' []) (w\<lparr>vb := ?v\<rparr>))"
  let ?conc = "expand_concat c t ?opts"
  let ?fps = "matched c pat t o0 w"
  have ws: "disk ?ws = disk w" "writes (trace ?ws) = writes (trace w)" "errors (trace ?ws) = errors (trace w)"
    by (simp_all add: emit_def writes_append errors_append)
  have fps: "expandMapping c (disk ?ws) pat (expand_defaults c ?v t ?opts) = ?fps"
    unfolding matched_def ws(1) by (simp add: expand_defaults_ext [of ?v "vb w"] ext_init)
  have nc: "\<not> truthy ?conc" using assms(2,3) by (simp add: expand_concat_iff)
  from map_mappings_direct [OF assms(1) nc assms(4), of ?opts ?ws "[]"] obtain w1 where
    m: "map_mappings c ?conc ?opts ?fps (?ws, []) = Returns (w1, [])"
      "map fst (writes (trace w1)) = map fst (writes (trace ?ws))
         @ concat (map (\<lambda>fp. map (\<lambda>p. dest fp) (filter (\<lambda>p. disk ?ws p \<noteq> None) (src fp))) ?fps)"
      "errors (trace w1) = errors (trace ?ws)
         @ concat (map (\<lambda>fp. map (\<lambda>p. [Str (not_found p)]) (filter (\<lambda>p. disk ?ws p = None) (src fp))) ?fps)"
    by blast
  let ?w' = "emit (Log ''log.success'' [Str (''  '' @ ToString (field (runner (vb w1)) ''name'') @ '' [done]'')])
               (emit (Log ''log.write'' []) w1)"
  have "expand c pat t o0 w = Returns ?w'"
    using m(1) nc by (simp add: expand_def Let_def fps)
  moreover have "map fst (writes (trace ?w')) = map fst (writes (trace w1))" "errors (trace ?w') = errors (trace w1)"
    by (simp_all add: emit_def writes_append errors_append)
  ultimately show ?thesis unfolding m(2,3) ws by blast
qed

text \<open>
  The same run in general: "on the disk" is read at the moment the mapping is reached.
\<close>

lemma expand_reached:
  assumes "\<And>v r. tags_resolve c v r \<noteq> None"
    and "\<not> truthy (get o0 ''concat'')" and "\<not> truthy (hasExt c t)"
  shows "\<exists>w'. expand c pat t o0 w = Returns w'
           \<and> map fst (writes (trace w')) = map fst (writes (trace w))
                @ concat (map (\<lambda>(fp, on_disk). map (\<lambda>p. dest fp) (filter on_disk (src fp)))
                    (reached (\<lambda>p. disk w p \<noteq> None) (matched c pat t o0 w)))
           \<and> errors (trace w') = errors (trace w)
                @ concat (map (\<lambda>(fp, on_disk). map (\<lambda>p. [Str (not_found p)]) (filter (\<lambda>p. \<not> on_disk p) (src fp)))
                    (reached (\<lambda>p. disk w p \<noteq> None) (matched c pat t o0 w)))"
proof -
  let ?opts = "expand_opts o0"
  let ?v = "(init (vb w) (Obj ?opts))\<lparr>options := (options (init (vb w) (Obj ?opts)))(''dest'' \<mapsto> cwd c (Str t))\<rparr>"
  let ?ws = "emit (Log ''log'' [Str (CHR 0x0A # ''  Expanding files:''), pat])
               (emit (Log ''log.write'' []) (w\<lparr>vb := ?v\<rparr>))"
  let ?conc = "expand_concat c t ?opts"
  let ?fps = "matched c pat t o0 w"
  have ws: "disk ?ws = disk w" "writes (trace ?ws) = writes (trace w)" "errors (trace ?ws) = errors (trace w)"
    by (simp_all add: emit_def writes_append errors_append)
  have fps: "expandMapping c (disk ?ws) pat (expand_defaults c ?v t ?opts) = ?fps"
    unfolding matched_def ws(1) by (simp add: expand_defaults_ext [of ?v "vb w"] ext_init)
  have nc: "\<not> truthy ?conc" using assms(2,3) by (simp add: expand_concat_iff)
  from map_mappings_reached [OF assms(1) nc, of ?opts ?fps ?ws "[]"] obtain w1 where
    m: "map_mappings c ?conc ?opts ?fps (?ws, []) = Returns (w1, [])"
      "map fst (writes (trace w1)) = map fst (writes (trace ?ws))
         @ concat (map (\<lambda>(fp, on_disk). map (\<lambda>p. dest fp) (filter on_disk (src fp)))
             (reached (\<lambda>p. disk ?ws p \<noteq> None) ?fps))"
      "errors (trace w1) = errors (trace ?ws)
         @ concat (map (\<lambda>(fp, on_disk). map (\<lambda>p. [Str (not_found p)]) (filter (\<lambda>p. \<not> on_disk p) (src fp)))
             (reached (\<lambda>p. disk ?ws p \<noteq> None) ?fps))"
    by blast
  let ?w' = "emit (Log ''log.success'' [Str (''  '' @ ToString (field (runner (vb w1)) ''name'') @ '' [done]'')])
               (emit (Log ''log.write'' []) w1)"
  have "expand c pat t o0 w = Returns ?w'"
    using m(1) nc by (simp add: expand_def Let_def fps)
  moreover have "map fst (writes (trace ?w')) = map fst (writes (trace w1))" "errors (trace ?w') = errors (trace w1)"
    by (simp_all add: emit_def writes_append errors_append)
  ultimately show ?thesis unfolding m(2,3) ws by blast
qed

lemma expand_deferred:
  assumes "\<And>v r. tags_resolve c v r \<noteq> None"
    and "truthy (get o0 ''concat'') \<or> truthy (hasExt c t)"
  shows "\<exists>w1 blob w2 w'.
           disk w1 = disk w
           \<and> read_deferred c (expand_opts o0)
                (filter (\<lambda>p. disk w p \<noteq> None) (concat (map src (matched c pat t o0 w)))) w1
               = Returns (blob, w2)
           \<and> length blob = length (filter (\<lambda>p. disk w p \<noteq> None) (concat (map src (matched c pat t o0 w))))
           \<and> expand c pat t o0 w = Returns w'
           \<and> writes (trace w') = writes (trace w) @ [(t, js_join (get o0 ''sep'') blob)]
           \<and> errors (trace w') = errors (trace w)
                @ map (\<lambda>p. [Str (not_found p)])
                    (filter (\<lambda>p. disk w p = None) (concat (map src (matched c pat t o0 w))))"
proof -
  let ?opts = "expand_opts o0"
  let ?v = "(init (vb w) (Obj ?opts))\<lparr>options := (options (init (vb w) (Obj ?opts)))(''dest'' \<mapsto> cwd c (Str t))\<rparr>"
  let ?ws = "emit (Log ''log'' [Str (CHR 0x0A # ''  Expanding files:''), pat])
               (emit (Log ''log.write'' []) (w\<lparr>vb := ?v\<rparr>))"
  let ?conc = "expand_concat c t ?opts"
  let ?fps = "matched c pat t o0 w"
  let ?found = "filter (\<lambda>p. disk w p \<noteq> None) (concat (map src ?fps))"
  have ws: "disk ?ws = disk w" "writes (trace ?ws) = writes (trace w)" "errors (trace ?ws) = errors (trace w)"
    by (simp_all add: emit_def writes_append errors_append)
  have fps: "expandMapping c (disk ?ws) pat (expand_defaults c ?v t ?opts) = ?fps"
    unfolding matched_def ws(1) by (simp add: expand_defaults_ext [of ?v "vb w"] ext_init)
  have cc: "truthy ?conc" using assms(2) by (simp add: expand_concat_iff)
  from map_mappings_defer [OF cc, of c ?opts ?fps ?ws "[]"] obtain w1 where
    m: "map_mappings c ?conc ?opts ?fps (?ws, []) = Returns (w1, [] @ filter (\<lambda>p. disk ?ws p \<noteq> None) (concat (map src ?fps)))"
      "disk w1 = disk ?ws" "writes (trace w1) = writes (trace ?ws)"
      "errors (trace w1) = errors (trace ?ws)
         @ map (\<lambda>p. [Str (not_found p)]) (filter (\<lambda>p. disk ?ws p = None) (concat (map src ?fps)))"
    by blast
  have d1: "disk w1 = disk w" using m(2) ws(1) by simp
  have m1: "map_mappings c ?conc ?opts ?fps (?ws, []) = Returns (w1, ?found)"
    using m(1) unfolding ws(1) by simp
  have "\<forall>p\<in>set ?found. disk w1 p \<noteq> None" unfolding d1 by simp
  from read_deferred_ok [OF assms(1) this, of ?opts] obtain blob w2 where
    r: "read_deferred c ?opts ?found w1 = Returns (blob, w2)" "length blob = length ?found"
      "writes (trace w2) = writes (trace w1)" "errors (trace w2) = errors (trace w1)"
    by blast
  let ?w3 = "emit (Log ''log.subhead'' [Str ''writing'', Str (relative c t)])
               (writeFileSync t (js_join (field ?opts ''sep'') blob) w2)"
  let ?w' = "emit (Log ''log.success'' [Str (''  '' @ ToString (field (runner (vb ?w3)) ''name'') @ '' [done]'')])
               (emit (Log ''log.write'' []) ?w3)"
  have sep: "field ?opts ''sep'' = get o0 ''sep''" by (simp add: field_expand_opts)
  have run: "expand c pat t o0 w = Returns ?w'"
    using m1 r(1) cc by (simp add: expand_def Let_def fps)
  have wr: "writes (trace ?w') = writes (trace w) @ [(t, js_join (get o0 ''sep'') blob)]"
    unfolding sep using r(3) m(3) ws(2) by (simp add: emit_def writeFileSync_def writes_append)
  have er: "errors (trace ?w') = errors (trace w)
      @ map (\<lambda>p. [Str (not_found p)]) (filter (\<lambda>p. disk w p = None) (concat (map src ?fps)))"
    using r(4) m(4) ws(1,3) by (simp add: emit_def writeFileSync_def errors_append)
  from d1 r(1,2) run wr er show ?thesis by blast
qed

subsection \<open>The context before the exclusion filter\<close>

lemma vcontext_context_base:
  "vcontext (context_base c v opts) k =
     (if k = ''config'' then None
      else case config_init c (field opts ''config'') of None \<Rightarrow> None | Some m \<Rightarrow> m k)"
  by (simp add: context_base_def set_shared_def Let_def split: option.splits)

lemma build_options:
  assumes "\<not> sets (field opts ''metadata'') k"
    and "\<not> sets (data_init c opts) k"
    and "\<And>v'. \<not> sets (tags_init c v') k"
    and "\<And>v'. \<not> sets (filters_init c v') k"
    and "\<not> sets (page_context (matter c s opts)) k"
  shows "vcontext (context_build c v s opts) k = (case opts k of None \<Rightarrow> vcontext v k | Some x \<Rightarrow> Some x)"
proof -
  from assms(1) have "\<not> sets (js_or (field opts ''metadata'') (Obj Map.empty)) k"
    by (simp add: js_or_def)
  with assms show ?thesis
    by (simp add: context_build_def Let_def vcontext_merge_shared js_extend_other map_add_def)
qed

lemma process_context_of:
  assumes "process c v s o0 = Some r"
  shows "r_context r = vcontext (process_context c
           ((init v (Obj (js_extend [''toc'' \<mapsto> Obj [''maxDepth'' \<mapsto> Num 2]] o0)))\<lparr>options := process_opts c v o0\<rparr>)
           s (process_opts c v o0))"
  using assms
  by (auto simp: process_eq process_setup_def Let_def split: option.splits)

lemma produced_process:
  assumes "\<And>v r. tags_resolve c v r \<noteq> None"
  shows "produced (process c v s o0) k = vcontext (process_context c
           ((init v (Obj (js_extend [''toc'' \<mapsto> Obj [''maxDepth'' \<mapsto> Num 2]] o0)))\<lparr>options := process_opts c v o0\<rparr>)
           s (process_opts c v o0)) k"
proof -
  from process_returns [OF assms] obtain r where r: "process c v s o0 = Some r" by blast
  from process_context_of [OF r] r show ?thesis by (simp add: produced_def)
qed

subsection \<open>The stand-in collaborators\<close>

lemma project_fires: "tags_resolve project v r \<noteq> None"
  by (simp add: project_def)

lemma project_runner_fires: "tags_resolve project_runner v r \<noteq> None"
  by (simp add: project_runner_def project_def)

lemma project_glob_fires: "tags_resolve project_glob v r \<noteq> None"
  by (simp add: project_glob_def project_def)

lemma callback_project: "callback project v s o0 = Some (2, s)"
  by (simp add: callback_def process_setup_def Let_def project_def split: prod.splits)

lemma callback_project_silent: "callback project_silent v s o0 = None"
  by (simp add: callback_def process_setup_def Let_def project_silent_def split: prod.splits)

lemma matched_project:
  "matched project pat t o0 w =
     [\<lparr>src = [''docs/a.md'', ''docs/gone.md''], dest = ''out/a.md''\<rparr>,
      \<lparr>src = [''docs/b.md''], dest = ''out/b.md''\<rparr>]"
  by (simp add: matched_def project_def)

section \<open>The context that \<^verbatim>\<open>process\<close> produces\<close>

text \<open>
  Claim C1, the precedence of the merges. The merges run in the order of the code, and a
  later one wins on a shared key. That does not make the front matter win for every key:
  the exclusion filter, the runner and the plugins come after it. The statement that holds
  is about a key other than \<^verbatim>\<open>runner\<close> that the exclusion filter passes on as it is and that
  plugin initialisation does not set. If the front matter sets such a key, the produced
  context holds the front-matter value, whatever the config object, the options and the
  metadata hold under it. If the front matter does not set it, the \<^verbatim>\<open>metadata\<close> option in
  effect does, and the data, tag and filter initialisers do not, the produced context holds
  the metadata value, whatever the config object and the options hold under it.
\<close>

theorem context_precedence:
  assumes "process c v s o0 = Some r"
    and "opts = process_opts c v o0"
    and "k \<noteq> ''runner''"
    and "\<And>m. exclusions c m opts k = m k"
    and "\<And>v'. \<not> sets (plugins_init c v') k"
  shows "(sets (page_context (matter c s opts)) k
           \<longrightarrow> r_context r k = Some (get (page_context (matter c s opts)) k))
       \<and> (\<not> sets (page_context (matter c s opts)) k \<and> sets (field opts ''metadata'') k
            \<and> \<not> sets (data_init c opts) k
            \<and> (\<forall>v'. \<not> sets (tags_init c v') k) \<and> (\<forall>v'. \<not> sets (filters_init c v') k)
           \<longrightarrow> r_context r k = Some (get (field opts ''metadata'') k))"
  using assms(3,4,5)
  by (simp add: process_context_of [OF assms(1)] assms(2) [symmetric] process_context_def
      finish_key build_front_matter build_metadata)

text \<open>
  The project at hand: config, metadata and front matter all set \<^verbatim>\<open>title\<close>, and the front
  matter wins; config and metadata set \<^verbatim>\<open>name\<close>, and the metadata wins.
\<close>

theorem context_precedence_witness:
  "\<exists>r. process project verb0 ''Body'' with_metadata = Some r
     \<and> sets (page_context (matter project ''Body'' (process_opts project verb0 with_metadata))) ''title''
     \<and> r_context r ''title'' = Some (Str ''C'')
     \<and> \<not> sets (page_context (matter project ''Body'' (process_opts project verb0 with_metadata))) ''name''
     \<and> sets (field (process_opts project verb0 with_metadata) ''metadata'') ''name''
     \<and> r_context r ''name'' = Some (Str ''N'')"
proof -
  let ?opts = "process_opts project verb0 with_metadata"
  from process_returns [of project verb0 "''Body''" with_metadata]
  obtain r where r: "process project verb0 ''Body'' with_metadata = Some r"
    using project_fires by blast
  have ex: "\<And>m k. k \<noteq> ''verbose'' \<Longrightarrow> exclusions project m ?opts k = m k"
    by (simp add: project_def omit_def)
  have pl: "\<And>v' k. \<not> sets (plugins_init project v') k" by (simp add: project_def)
  have md: "field ?opts ''metadata'' = Obj [''title'' \<mapsto> Str ''B'', ''name'' \<mapsto> Str ''N'']"
    by (simp add: process_opts_def Let_def with_metadata_def field_def verb0_def)
  have fm: "page_context (matter project ''Body'' ?opts) = Obj [''title'' \<mapsto> Str ''C'']"
    by (simp add: project_def)
  have other: "\<not> sets (data_init project ?opts) ''name''"
    "\<forall>v'. \<not> sets (tags_init project v') ''name''" "\<forall>v'. \<not> sets (filters_init project v') ''name''"
    by (simp_all add: project_def)
  from context_precedence [OF r refl _ ex pl, of "''title''"]
  have t: "r_context r ''title'' = Some (Str ''C'')" by (simp add: fm field_def)
  from context_precedence [OF r refl _ ex pl, of "''name''"] other
  have "r_context r ''name'' = Some (get (field ?opts ''metadata'') ''name'')" by (simp add: fm md)
  then have n: "r_context r ''name'' = Some (Str ''N'')" unfolding md by (simp add: field_def)
  from r t n show ?thesis by (simp add: fm md)
qed

text \<open>
  Against C1 as stated for any key: config, metadata and front matter all set \<^verbatim>\<open>runner\<close>,
  and the produced context holds none of their values but the runner identity.
\<close>

theorem runner_key_not_from_front_matter:
  "config_value project_runner (process_opts project_runner verb0 with_runner) ''runner'' = Some (Str ''A'')
   \<and> get (field (process_opts project_runner verb0 with_runner) ''metadata'') ''runner'' = Str ''B''
   \<and> get (page_context (matter project_runner ''Body'' (process_opts project_runner verb0 with_runner))) ''runner'' = Str ''C''
   \<and> produced (process project_runner verb0 ''Body'' with_runner) ''runner'' = Some (Obj (runner verb0))
   \<and> Obj (runner verb0) \<noteq> Str ''B'' \<and> Obj (runner verb0) \<noteq> Str ''C''"
proof -
  have md: "field (process_opts project_runner verb0 with_runner) ''metadata'' = Obj [''runner'' \<mapsto> Str ''B'']"
    by (simp add: process_opts_def Let_def with_runner_def field_def verb0_def)
  have pl: "\<And>v'. \<not> sets (plugins_init project_runner v') ''runner''"
    by (simp add: project_runner_def project_def)
  have p: "produced (process project_runner verb0 ''Body'' with_runner) ''runner'' = Some (Obj (runner verb0))"
    by (simp add: produced_process [OF project_runner_fires] process_context_def finish_runner [OF pl]
        runner_context_build runner_context_base runner_init)
  have c: "config_init project_runner x = Some [''runner'' \<mapsto> Str ''A'']" for x
    by (simp add: project_runner_def)
  have fm: "page_context (matter project_runner ''Body'' opts) = Obj [''runner'' \<mapsto> Str ''C'']" for opts
    by (simp add: project_runner_def)
  show ?thesis unfolding md by (simp add: p c fm field_def config_value_def)
qed

text \<open>
  Claim C2, the \<^verbatim>\<open>config\<close> key. The code deletes the \<^verbatim>\<open>config\<close> property of the config
  object before anything else is merged, and then merges the options, which carry the
  \<^verbatim>\<open>config\<close> option of the caller. So the statement that holds has a condition: the
  produced context is free of \<^verbatim>\<open>config\<close> when plugin initialisation does not set it and
  either the exclusion filter removes it, or no merged source sets it (options, metadata,
  data, tags, filters, front matter) and the exclusion filter does not add it.
\<close>

theorem context_without_config:
  assumes "process c v s o0 = Some r"
    and "opts = process_opts c v o0"
    and "\<And>v'. \<not> sets (plugins_init c v') ''config''"
    and "(\<forall>m. exclusions c m opts ''config'' = None)
       \<or> (opts ''config'' = None \<and> \<not> sets (field opts ''metadata'') ''config''
           \<and> \<not> sets (data_init c opts) ''config''
           \<and> (\<forall>v'. \<not> sets (tags_init c v') ''config'') \<and> (\<forall>v'. \<not> sets (filters_init c v') ''config'')
           \<and> \<not> sets (page_context (matter c s opts)) ''config''
           \<and> (\<forall>m. m ''config'' = None \<longrightarrow> exclusions c m opts ''config'' = None))"
  shows "vcontext (context_base c v' opts) ''config'' = None \<and> r_context r ''config'' = None"
proof -
  have del: "vcontext (context_base c v' opts) ''config'' = None"
    by (simp add: vcontext_context_base)
  let ?v = "(init v (Obj (js_extend [''toc'' \<mapsto> Obj [''maxDepth'' \<mapsto> Num 2]] o0)))\<lparr>options := opts\<rparr>"
  let ?b = "context_build c (context_base c ?v opts) s opts"
  have fin: "r_context r ''config'' = exclusions c (vcontext ?b) opts ''config''"
    using assms(3) by (simp add: process_context_of [OF assms(1)] assms(2) [symmetric] process_context_def finish_key)
  from assms(4) have "r_context r ''config'' = None"
  proof
    assume "\<forall>m. exclusions c m opts ''config'' = None"
    with fin show ?thesis by simp
  next
    assume a: "opts ''config'' = None \<and> \<not> sets (field opts ''metadata'') ''config''
           \<and> \<not> sets (data_init c opts) ''config''
           \<and> (\<forall>v'. \<not> sets (tags_init c v') ''config'') \<and> (\<forall>v'. \<not> sets (filters_init c v') ''config'')
           \<and> \<not> sets (page_context (matter c s opts)) ''config''
           \<and> (\<forall>m. m ''config'' = None \<longrightarrow> exclusions c m opts ''config'' = None)"
    then have "vcontext ?b ''config'' = None"
      by (simp add: build_options vcontext_context_base)
    with a fin show ?thesis by simp
  qed
  with del show ?thesis by simp
qed

text \<open>
  Both conditions are met in turn: by an exclusion filter that drops \<^verbatim>\<open>config\<close>, and by a
  call without a \<^verbatim>\<open>config\<close> option.
\<close>

theorem context_without_config_witness:
  "(\<exists>r. process project_strict verb0 ''Body'' with_metadata = Some r
       \<and> (\<forall>m. exclusions project_strict m (process_opts project_strict verb0 with_metadata) ''config'' = None)
       \<and> r_context r ''config'' = None)
   \<and> (\<exists>r. process project verb0 ''Body'' Undefined = Some r
       \<and> process_opts project verb0 Undefined ''config'' = None
       \<and> r_context r ''config'' = None)"
proof -
  have f: "\<And>v r. tags_resolve project_strict v r \<noteq> None"
    by (simp add: project_strict_def project_def)
  from process_returns [OF f, of verb0 "''Body''" with_metadata]
  obtain r where r: "process project_strict verb0 ''Body'' with_metadata = Some r" by blast
  have ex: "\<forall>m. exclusions project_strict m (process_opts project_strict verb0 with_metadata) ''config'' = None"
    by (simp add: project_strict_def omit_def)
  have pl: "\<And>v'. \<not> sets (plugins_init project_strict v') ''config''"
    by (simp add: project_strict_def project_def)
  from context_without_config [OF r refl pl, of verb0] ex
  have one: "r_context r ''config'' = None" by simp
  from process_returns [of project verb0 "''Body''" Undefined]
  obtain r' where r': "process project verb0 ''Body'' Undefined = Some r'"
    using project_fires by blast
  have no: "process_opts project verb0 Undefined ''config'' = None"
    by (simp add: process_opts_def Let_def verb0_def field_def)
  have pl': "\<And>v'. \<not> sets (plugins_init project v') ''config''" by (simp add: project_def)
  have "opts ''config'' = None \<and> \<not> sets (field opts ''metadata'') ''config''
           \<and> \<not> sets (data_init project opts) ''config''
           \<and> (\<forall>v'. \<not> sets (tags_init project v') ''config'') \<and> (\<forall>v'. \<not> sets (filters_init project v') ''config'')
           \<and> \<not> sets (page_context (matter project ''Body'' opts)) ''config''
           \<and> (\<forall>m. m ''config'' = None \<longrightarrow> exclusions project m opts ''config'' = None)"
    if "opts = process_opts project verb0 Undefined" for opts
    using that no by (simp add: project_def omit_def field_def process_opts_def Let_def verb0_def)
  with context_without_config [OF r' refl pl', of verb0]
  have two: "r_context r' ''config'' = None" by blast
  from r ex one r' no two show ?thesis by blast
qed

text \<open>
  Against C2 as stated for any options: with the option \<^verbatim>\<open>config: 'package.json'\<close> and an
  exclusion filter that drops \<^verbatim>\<open>verbose\<close> only, the produced context holds \<^verbatim>\<open>config\<close>.
\<close>

theorem config_option_reaches_context:
  "field (process_opts project verb0 with_metadata) ''config'' = Str ''package.json''
   \<and> produced (process project verb0 ''Body'' with_metadata) ''config'' = Some (Str ''package.json'')"
proof -
  let ?opts = "process_opts project verb0 with_metadata"
  have o: "?opts ''config'' = Some (Str ''package.json'')"
    "field ?opts ''metadata'' = Obj [''title'' \<mapsto> Str ''B'', ''name'' \<mapsto> Str ''N'']"
    by (simp_all add: process_opts_def Let_def with_metadata_def field_def verb0_def)
  have pl: "\<And>v'. \<not> sets (plugins_init project v') ''config''" by (simp add: project_def)
  have ex: "exclusions project m ?opts ''config'' = m ''config''" for m
    by (simp add: project_def omit_def)
  have fm: "page_context (matter project ''Body'' ?opts) = Obj [''title'' \<mapsto> Str ''C'']"
    by (simp add: project_def)
  have other: "\<not> sets (data_init project ?opts) ''config''"
    "\<And>v'. \<not> sets (tags_init project v') ''config''" "\<And>v'. \<not> sets (filters_init project v') ''config''"
    by (simp_all add: project_def)
  have b: "vcontext (context_build project v ''Body'' ?opts) ''config'' = Some (Str ''package.json'')" for v
    using other by (subst build_options) (simp_all add: o fm)
  have "produced (process project verb0 ''Body'' with_metadata) ''config''
      = exclusions project (vcontext (context_build project (context_base project
          ((init verb0 (Obj (js_extend [''toc'' \<mapsto> Obj [''maxDepth'' \<mapsto> Num 2]] with_metadata)))\<lparr>options := ?opts\<rparr>)
          ?opts) ''Body'' ?opts)) ?opts ''config''"
    using pl by (simp add: produced_process [OF project_fires] process_context_def finish_key)
  then have "produced (process project verb0 ''Body'' with_metadata) ''config'' = Some (Str ''package.json'')"
    by (simp only: ex b)
  then show ?thesis by (simp add: o field_def)
qed

text \<open>
  Claim C3, the runner identity. It is merged after the exclusion filter, so nothing merged
  before can replace it; but the result of plugin initialisation is merged after it. The
  produced context holds the runner identity of the module under \<^verbatim>\<open>runner\<close> whenever plugin
  initialisation does not set that key.
\<close>

theorem runner_after_exclusions:
  assumes "process c v s o0 = Some r"
    and "\<And>v'. \<not> sets (plugins_init c v') ''runner''"
  shows "r_context r ''runner'' = Some (Obj (runner v))"
  using assms(2)
  by (simp add: process_context_of [OF assms(1)] process_context_def finish_runner
      runner_context_build runner_context_base runner_init)

theorem runner_after_exclusions_witness:
  "\<exists>r. process project verb0 ''Body'' with_metadata = Some r
     \<and> r_context r ''runner''
         = Some (Obj [''name'' \<mapsto> Str ''Verb'', ''url'' \<mapsto> Str ''https://github.com/assemble/verb''])"
proof -
  from process_returns [of project verb0 "''Body''" with_metadata]
  obtain r where r: "process project verb0 ''Body'' with_metadata = Some r"
    using project_fires by blast
  have "\<And>v'. \<not> sets (plugins_init project v') ''runner''" by (simp add: project_def)
  from runner_after_exclusions [OF r this] r show ?thesis by (simp add: verb0_def)
qed

text \<open>
  Against C3 as stated: a plugin that returns its own \<^verbatim>\<open>runner\<close> replaces the identity.
\<close>

theorem runner_overridden_by_plugin:
  "produced (process project_with_plugin verb0 ''Body'' with_metadata) ''runner'' = Some (Str ''Assemble'')
   \<and> produced (process project_with_plugin verb0 ''Body'' with_metadata) ''runner'' \<noteq> Some (Obj (runner verb0))"
proof -
  have "\<And>v r. tags_resolve project_with_plugin v r \<noteq> None"
    by (simp add: project_with_plugin_def project_def)
  from produced_process [OF this] show ?thesis
    by (simp add: process_context_def context_finish_def Let_def merge_context_def
        project_with_plugin_def)
qed

section \<open>The waiting loop of \<^verbatim>\<open>process\<close>\<close>

text \<open>
  Claim C8: \<^verbatim>\<open>process\<close> returns its record exactly when the tag resolver calls back. When
  the callback fires during the \<open>n\<close>-th yield, the loop is left after \<open>n\<close> yields and the
  call returns; when it never fires, the loop is never left and the call does not return.
\<close>

theorem process_returns_iff_callback:
  "((\<exists>r. process c v s o0 = Some r) \<longleftrightarrow> (\<exists>n results. callback c v s o0 = Some (n, results)))
   \<and> (\<forall>n results. callback c v s o0 = Some (n, results)
         \<longrightarrow> await (renderDone (callback c v s o0)) 0 = Some n)
   \<and> (callback c v s o0 = None
         \<longrightarrow> await (renderDone (callback c v s o0)) 0 = None \<and> process c v s o0 = None)"
  by (cases "process_setup c v s o0")
     (auto simp: process_eq callback_def await_fires await_never split: option.splits)

text \<open>
  A resolver that calls back during the second yield, and one that stays silent.
\<close>

theorem process_returns_iff_callback_witness:
  "callback project verb0 ''Body'' Undefined = Some (2, ''Body'')
   \<and> await (renderDone (callback project verb0 ''Body'' Undefined)) 0 = Some 2
   \<and> (\<exists>r. process project verb0 ''Body'' Undefined = Some r)
   \<and> callback project_silent verb0 ''Body'' Undefined = None
   \<and> process project_silent verb0 ''Body'' Undefined = None"
  using process_returns_iff_callback [of project verb0 "''Body''" Undefined]
    process_returns_iff_callback [of project_silent verb0 "''Body''" Undefined]
  by (simp add: callback_project callback_project_silent)

section \<open>\<^verbatim>\<open>expand\<close>\<close>

text \<open>
  Claim C6: \<^verbatim>\<open>expand\<close> concatenates exactly when the \<^verbatim>\<open>concat\<close> option of the caller is
  truthy or \<^verbatim>\<open>file.hasExt\<close> finds an extension on the destination. That is the value of the
  flag of line 283, and it is what the run does, the tag resolver calling back on every
  file: in that case the matched paths that are on the disk are deferred and the run makes
  one write, of the joined contents, to the destination; with \<^verbatim>\<open>concat\<close> absent or false and
  no extension on the destination, the run writes once per matched path that is on the
  disk, to the destination of its mapping.
\<close>

theorem expand_concat_mode:
  assumes "\<And>v r. tags_resolve c v r \<noteq> None"
  shows "truthy (expand_concat c t (expand_opts o0)) = (truthy (get o0 ''concat'') \<or> truthy (hasExt c t))
     \<and> (truthy (get o0 ''concat'') \<or> truthy (hasExt c t) \<longrightarrow>
          (\<exists>w1 blob w2 w'.
             disk w1 = disk w
             \<and> read_deferred c (expand_opts o0)
                  (filter (\<lambda>p. disk w p \<noteq> None) (concat (map src (matched c pat t o0 w)))) w1
                 = Returns (blob, w2)
             \<and> length blob = length (filter (\<lambda>p. disk w p \<noteq> None) (concat (map src (matched c pat t o0 w))))
             \<and> expand c pat t o0 w = Returns w'
             \<and> writes (trace w') = writes (trace w) @ [(t, js_join (get o0 ''sep'') blob)]))
     \<and> (\<not> (truthy (get o0 ''concat'') \<or> truthy (hasExt c t)) \<longrightarrow>
          (\<exists>w'. expand c pat t o0 w = Returns w'
             \<and> map fst (writes (trace w')) = map fst (writes (trace w))
                  @ concat (map (\<lambda>(fp, on_disk). map (\<lambda>p. dest fp) (filter on_disk (src fp)))
                      (reached (\<lambda>p. disk w p \<noteq> None) (matched c pat t o0 w)))))"
proof (intro conjI impI)
  show "truthy (expand_concat c t (expand_opts o0)) = (truthy (get o0 ''concat'') \<or> truthy (hasExt c t))"
    by (rule expand_concat_iff)
next
  assume "truthy (get o0 ''concat'') \<or> truthy (hasExt c t)"
  from expand_deferred [OF assms this, where pat = pat and w = w]
  show "\<exists>w1 blob w2 w'.
             disk w1 = disk w
             \<and> read_deferred c (expand_opts o0)
                  (filter (\<lambda>p. disk w p \<noteq> None) (concat (map src (matched c pat t o0 w)))) w1
                 = Returns (blob, w2)
             \<and> length blob = length (filter (\<lambda>p. disk w p \<noteq> None) (concat (map src (matched c pat t o0 w))))
             \<and> expand c pat t o0 w = Returns w'
             \<and> writes (trace w') = writes (trace w) @ [(t, js_join (get o0 ''sep'') blob)]"
    by blast
next
  assume "\<not> (truthy (get o0 ''concat'') \<or> truthy (hasExt c t))"
  then have n: "\<not> truthy (get o0 ''concat'')" "\<not> truthy (hasExt c t)" by simp_all
  from expand_reached [OF assms n, where pat = pat and w = w]
  show "\<exists>w'. expand c pat t o0 w = Returns w'
             \<and> map fst (writes (trace w')) = map fst (writes (trace w))
                  @ concat (map (\<lambda>(fp, on_disk). map (\<lambda>p. dest fp) (filter on_disk (src fp)))
                      (reached (\<lambda>p. disk w p \<noteq> None) (matched c pat t o0 w)))"
    by blast
qed

theorem expand_concat_mode_witness:
  "(\<exists>w' blob. expand project (Str ''docs/*.md'') ''out'' (Obj [''concat'' \<mapsto> Bool True]) world0 = Returns w'
       \<and> length blob = 2 \<and> writes (trace w') = [(''out'', js_join Undefined blob)])
   \<and> and_then (expand project (Str ''docs/*.md'') ''out'' (Obj [''concat'' \<mapsto> Bool True]) world0)
        (\<lambda>w. Returns (writes (trace w))) = Returns [(''out'', ''alpha,beta'')]
   \<and> (\<exists>w' blob. expand project (Str ''docs/*.md'') ''README.md'' (Obj [''concat'' \<mapsto> Bool False]) world0 = Returns w'
       \<and> length blob = 2 \<and> writes (trace w') = [(''README.md'', js_join Undefined blob)])
   \<and> and_then (expand project (Str ''docs/*.md'') ''README.md'' (Obj [''concat'' \<mapsto> Bool False]) world0)
        (\<lambda>w. Returns (writes (trace w))) = Returns [(''README.md'', ''alpha,beta'')]
   \<and> (\<exists>w'. expand project (Str ''docs/*.md'') ''out'' (Obj [''concat'' \<mapsto> Bool False]) world0 = Returns w'
       \<and> map fst (writes (trace w')) = [''out/a.md'', ''out/b.md''])
   \<and> and_then (expand project (Str ''docs/*.md'') ''out'' (Obj [''concat'' \<mapsto> Bool False]) world0)
        (\<lambda>w. Returns (writes (trace w))) = Returns [(''out/a.md'', ''alpha''), (''out/b.md'', ''beta'')]"
proof -
  let ?pat = "Str ''docs/*.md''"
  let ?yes = "Obj [''concat'' \<mapsto> Bool True]"
  let ?no = "Obj [''concat'' \<mapsto> Bool False]"
  have y: "truthy (get ?yes ''concat'') \<or> truthy (hasExt project ''out'')"
    by (simp add: field_def)
  have r: "truthy (get ?no ''concat'') \<or> truthy (hasExt project ''README.md'')"
    by (simp add: project_def)
  have n: "\<not> (truthy (get ?no ''concat'') \<or> truthy (hasExt project ''out''))"
    by (simp add: project_def field_def)
  have sep: "get ?yes ''sep'' = Undefined" "get ?no ''sep'' = Undefined"
    by (simp_all add: field_def)
  have len: "length (filter (\<lambda>p. disk world0 p \<noteq> None) (concat (map src (matched project ?pat t o0 world0)))) = 2"
    for t o0
    by (simp add: matched_project world0_def)
  from expand_concat_mode [OF project_fires, where t = "''out''" and ?o0.0 = ?yes and pat = ?pat and w = world0] y
  obtain w1 blob w2 w' where
    "length blob = length (filter (\<lambda>p. disk world0 p \<noteq> None) (concat (map src (matched project ?pat ''out'' ?yes world0))))"
    "expand project ?pat ''out'' ?yes world0 = Returns w'"
    "writes (trace w') = writes (trace world0) @ [(''out'', js_join (get ?yes ''sep'') blob)]"
    by blast
  then have "expand project ?pat ''out'' ?yes world0 = Returns w'
       \<and> length blob = 2 \<and> writes (trace w') = [(''out'', js_join Undefined blob)]"
    unfolding len sep by (simp add: world0_def)
  then have a: "\<exists>w' blob. expand project ?pat ''out'' ?yes world0 = Returns w'
       \<and> length blob = 2 \<and> writes (trace w') = [(''out'', js_join Undefined blob)]"
    by blast
  from expand_concat_mode [OF project_fires, where t = "''README.md''" and ?o0.0 = ?no and pat = ?pat and w = world0] r
  obtain v1 blob' v2 v' where
    "length blob' = length (filter (\<lambda>p. disk world0 p \<noteq> None) (concat (map src (matched project ?pat ''README.md'' ?no world0))))"
    "expand project ?pat ''README.md'' ?no world0 = Returns v'"
    "writes (trace v') = writes (trace world0) @ [(''README.md'', js_join (get ?no ''sep'') blob')]"
    by blast
  then have "expand project ?pat ''README.md'' ?no world0 = Returns v'
       \<and> length blob' = 2 \<and> writes (trace v') = [(''README.md'', js_join Undefined blob')]"
    unfolding len sep by (simp add: world0_def)
  then have b: "\<exists>w' blob. expand project ?pat ''README.md'' ?no world0 = Returns w'
       \<and> length blob = 2 \<and> writes (trace w') = [(''README.md'', js_join Undefined blob)]"
    by blast
  from expand_concat_mode [OF project_fires, where t = "''out''" and ?o0.0 = ?no and pat = ?pat and w = world0] n
  obtain u' where
    u: "expand project ?pat ''out'' ?no world0 = Returns u'"
    and "map fst (writes (trace u')) = map fst (writes (trace world0))
        @ concat (map (\<lambda>(fp, on_disk). map (\<lambda>p. dest fp) (filter on_disk (src fp)))
            (reached (\<lambda>p. disk world0 p \<noteq> None) (matched project ?pat ''out'' ?no world0)))"
    by blast
  then have uw: "map fst (writes (trace u')) = [''out/a.md'', ''out/b.md'']"
    by (simp add: matched_project world0_def)
  have c: "\<exists>w'. expand project ?pat ''out'' ?no world0 = Returns w'
       \<and> map fst (writes (trace w')) = [''out/a.md'', ''out/b.md'']"
  proof (rule exI [of _ u'], rule conjI)
    show "expand project ?pat ''out'' ?no world0 = Returns u'" by (rule u)
    show "map fst (writes (trace u')) = [''out/a.md'', ''out/b.md'']" by (rule uw)
  qed
  have a': "and_then (expand project ?pat ''out'' ?yes world0)
        (\<lambda>w. Returns (writes (trace w))) = Returns [(''out'', ''alpha,beta'')]"
    by code_simp
  have b': "and_then (expand project ?pat ''README.md'' ?no world0)
        (\<lambda>w. Returns (writes (trace w))) = Returns [(''README.md'', ''alpha,beta'')]"
    by code_simp
  have c': "and_then (expand project ?pat ''out'' ?no world0)
        (\<lambda>w. Returns (writes (trace w))) = Returns [(''out/a.md'', ''alpha''), (''out/b.md'', ''beta'')]"
    by code_simp
  show ?thesis
    by (intro conjI) (rule a, rule a', rule b, rule b', rule c, rule c')
qed

text \<open>
  Claim C5, the run that does not concatenate. The tag resolver is taken to call back on
  every file, as its contract says. Then the run returns. The mappings are gone through in
  order, and a path is on the disk or not at the moment its mapping is reached (the run
  writes as it goes, see \<open>reached\<close>): each matched path that is on the disk gives one
  write, to the destination of its mapping; each matched path that is not gives one logged
  error and no write; and the paths after a missing one are processed like the others.
\<close>

theorem expand_per_file:
  assumes "\<And>v r. tags_resolve c v r \<noteq> None"
    and "\<not> truthy (get o0 ''concat'')" and "\<not> truthy (hasExt c t)"
  shows "\<exists>w'. expand c pat t o0 w = Returns w'
           \<and> map fst (writes (trace w')) = map fst (writes (trace w))
                @ concat (map (\<lambda>(fp, on_disk). map (\<lambda>p. dest fp) (filter on_disk (src fp)))
                    (reached (\<lambda>p. disk w p \<noteq> None) (matched c pat t o0 w)))
           \<and> errors (trace w') = errors (trace w)
                @ concat (map (\<lambda>(fp, on_disk). map (\<lambda>p. [Str (not_found p)]) (filter (\<lambda>p. \<not> on_disk p) (src fp)))
                    (reached (\<lambda>p. disk w p \<noteq> None) (matched c pat t o0 w)))"
  using assms by (rule expand_reached)

text \<open>Three matched paths, one of them missing: two writes, one error.\<close>

theorem expand_per_file_witness:
  "(\<exists>w'. expand project (Str ''docs/*.md'') ''out'' Undefined world0 = Returns w'
     \<and> map fst (writes (trace w')) = [''out/a.md'', ''out/b.md'']
     \<and> errors (trace w') = [[Str (not_found ''docs/gone.md'')]])
   \<and> and_then (expand project (Str ''docs/*.md'') ''out'' Undefined world0) (\<lambda>w. Returns (writes (trace w)))
       = Returns [(''out/a.md'', ''alpha''), (''out/b.md'', ''beta'')]"
proof -
  have m: "\<not> truthy (get Undefined ''concat'')" "\<not> truthy (hasExt project ''out'')"
    by (simp_all add: project_def)
  from expand_per_file [OF project_fires m, where pat = "Str ''docs/*.md''" and w = world0]
  have "\<exists>w'. expand project (Str ''docs/*.md'') ''out'' Undefined world0 = Returns w'
     \<and> map fst (writes (trace w')) = [''out/a.md'', ''out/b.md'']
     \<and> errors (trace w') = [[Str (not_found ''docs/gone.md'')]]"
    by (simp add: matched_project world0_def)
  moreover have "and_then (expand project (Str ''docs/*.md'') ''out'' Undefined world0)
       (\<lambda>w. Returns (writes (trace w))) = Returns [(''out/a.md'', ''alpha''), (''out/b.md'', ''beta'')]"
    by code_simp
  ultimately show ?thesis by blast
qed



text \<open>
  Claim C9: when the caller gives no \<^verbatim>\<open>sep\<close>, the mapping defaults hold a newline under
  \<^verbatim>\<open>sep\<close>, but the join is handed \<^verbatim>\<open>opts.sep\<close>, which is undefined, and the contents are joined
  with a comma.
\<close>

theorem expand_join_default_comma:
  assumes "\<And>v r. tags_resolve c v r \<noteq> None"
    and "truthy (get o0 ''concat'') \<or> truthy (hasExt c t)"
    and "get o0 ''sep'' = Undefined"
  shows "expand_base c (vb w) t (expand_opts o0) ''sep'' = Some (Str [CHR 0x0A])
       \<and> (\<exists>w1 blob w2 w'.
             disk w1 = disk w
             \<and> read_deferred c (expand_opts o0)
                  (filter (\<lambda>p. disk w p \<noteq> None) (concat (map src (matched c pat t o0 w)))) w1
                 = Returns (blob, w2)
             \<and> expand c pat t o0 w = Returns w'
             \<and> writes (trace w') = writes (trace w) @ [(t, join_with '','' blob)])"
proof -
  have "field (expand_opts o0) ''sep'' = Undefined"
    using assms(3) by (simp add: field_expand_opts)
  then have base: "expand_base c (vb w) t (expand_opts o0) ''sep'' = Some (Str [CHR 0x0A])"
    by (simp add: expand_base_def Let_def js_or_def)
  from expand_deferred [OF assms(1,2), where pat = pat and w = w] assms(3)
  have "\<exists>w1 blob w2 w'.
             disk w1 = disk w
             \<and> read_deferred c (expand_opts o0)
                  (filter (\<lambda>p. disk w p \<noteq> None) (concat (map src (matched c pat t o0 w)))) w1
                 = Returns (blob, w2)
             \<and> expand c pat t o0 w = Returns w'
             \<and> writes (trace w') = writes (trace w) @ [(t, join_with '','' blob)]"
    by (auto simp: js_join_def)
  with base show ?thesis by blast
qed

theorem expand_join_default_comma_witness:
  "expand_base project (vb world0) ''README.md'' (expand_opts Undefined) ''sep'' = Some (Str [CHR 0x0A])
   \<and> (\<exists>w' blob. expand project (Str ''docs/*.md'') ''README.md'' Undefined world0 = Returns w'
         \<and> writes (trace w') = [(''README.md'', join_with '','' blob)])
   \<and> and_then (expand project (Str ''docs/*.md'') ''README.md'' Undefined world0)
         (\<lambda>w. Returns (writes (trace w)))
       = Returns [(''README.md'', ''alpha,beta'')]"
proof -
  have m: "truthy (get Undefined ''concat'') \<or> truthy (hasExt project ''README.md'')"
    by (simp add: project_def)
  have s: "get Undefined ''sep'' = Undefined" by simp
  from expand_join_default_comma [OF project_fires m s, where w = world0 and pat = "Str ''docs/*.md''"]
  have "expand_base project (vb world0) ''README.md'' (expand_opts Undefined) ''sep'' = Some (Str [CHR 0x0A])
   \<and> (\<exists>w' blob. expand project (Str ''docs/*.md'') ''README.md'' Undefined world0 = Returns w'
         \<and> writes (trace w') = [(''README.md'', join_with '','' blob)])"
    by (auto simp: world0_def)
  moreover have "and_then (expand project (Str ''docs/*.md'') ''README.md'' Undefined world0)
       (\<lambda>w. Returns (writes (trace w))) = Returns [(''README.md'', ''alpha,beta'')]"
    by code_simp
  ultimately show ?thesis by blast
qed

text \<open>
  Claim C10: the \<^verbatim>\<open>glob\<close> option is merged over the computed defaults last, and the merged
  object \<open>D\<close> is what \<^verbatim>\<open>expand\<close> hands to \<^verbatim>\<open>file.expandMapping\<close>. Under a key the \<^verbatim>\<open>glob\<close>
  object sets, \<open>D\<close> holds the value of the \<^verbatim>\<open>glob\<close> object, whatever \<^verbatim>\<open>cwd\<close>, \<^verbatim>\<open>ext\<close> or the
  destination gave; under any other key it holds the computed default. The mappings that
  \<^verbatim>\<open>file.expandMapping\<close> returns for \<open>D\<close> are the ones the run goes through: they decide what
  is read, written and reported, in either mode, the tag resolver calling back on every
  file.
\<close>

theorem expand_glob_overrides:
  assumes "\<And>v r. tags_resolve c v r \<noteq> None"
    and "get o0 ''glob'' = Obj g"
  shows "\<exists>D. (\<forall>k. D k = (case g k of None \<Rightarrow> expand_base c (vb w) t (expand_opts o0) k | Some x \<Rightarrow> Some x))
     \<and> (truthy (get o0 ''concat'') \<or> truthy (hasExt c t) \<longrightarrow>
          (\<exists>w1 blob w2 w'.
             disk w1 = disk w
             \<and> read_deferred c (expand_opts o0)
                  (filter (\<lambda>p. disk w p \<noteq> None) (concat (map src (expandMapping c (disk w) pat D)))) w1
                 = Returns (blob, w2)
             \<and> expand c pat t o0 w = Returns w'
             \<and> writes (trace w') = writes (trace w) @ [(t, js_join (get o0 ''sep'') blob)]
             \<and> errors (trace w') = errors (trace w)
                  @ map (\<lambda>p. [Str (not_found p)])
                      (filter (\<lambda>p. disk w p = None) (concat (map src (expandMapping c (disk w) pat D))))))
     \<and> (\<not> (truthy (get o0 ''concat'') \<or> truthy (hasExt c t)) \<longrightarrow>
          (\<exists>w'. expand c pat t o0 w = Returns w'
             \<and> map fst (writes (trace w')) = map fst (writes (trace w))
                  @ concat (map (\<lambda>(fp, on_disk). map (\<lambda>p. dest fp) (filter on_disk (src fp)))
                      (reached (\<lambda>p. disk w p \<noteq> None) (expandMapping c (disk w) pat D)))
             \<and> errors (trace w') = errors (trace w)
                  @ concat (map (\<lambda>(fp, on_disk). map (\<lambda>p. [Str (not_found p)]) (filter (\<lambda>p. \<not> on_disk p) (src fp)))
                      (reached (\<lambda>p. disk w p \<noteq> None) (expandMapping c (disk w) pat D)))))"
proof -
  let ?D = "expand_defaults c (vb w) t (expand_opts o0)"
  have d: "\<forall>k. ?D k = (case g k of None \<Rightarrow> expand_base c (vb w) t (expand_opts o0) k | Some x \<Rightarrow> Some x)"
    using assms(2)
    by (auto simp: expand_defaults_def glob_expand_opts js_or_def map_add_def split: option.splits)
  have m: "matched c pat t o0 w = expandMapping c (disk w) pat ?D"
    by (simp add: matched_def)
  have one: "\<exists>w1 blob w2 w'.
             disk w1 = disk w
             \<and> read_deferred c (expand_opts o0)
                  (filter (\<lambda>p. disk w p \<noteq> None) (concat (map src (expandMapping c (disk w) pat ?D)))) w1
                 = Returns (blob, w2)
             \<and> expand c pat t o0 w = Returns w'
             \<and> writes (trace w') = writes (trace w) @ [(t, js_join (get o0 ''sep'') blob)]
             \<and> errors (trace w') = errors (trace w)
                  @ map (\<lambda>p. [Str (not_found p)])
                      (filter (\<lambda>p. disk w p = None) (concat (map src (expandMapping c (disk w) pat ?D))))"
    if "truthy (get o0 ''concat'') \<or> truthy (hasExt c t)"
    using expand_deferred [OF assms(1) that, where pat = pat and w = w] unfolding m by blast
  have two: "\<exists>w'. expand c pat t o0 w = Returns w'
             \<and> map fst (writes (trace w')) = map fst (writes (trace w))
                  @ concat (map (\<lambda>(fp, on_disk). map (\<lambda>p. dest fp) (filter on_disk (src fp)))
                      (reached (\<lambda>p. disk w p \<noteq> None) (expandMapping c (disk w) pat ?D)))
             \<and> errors (trace w') = errors (trace w)
                  @ concat (map (\<lambda>(fp, on_disk). map (\<lambda>p. [Str (not_found p)]) (filter (\<lambda>p. \<not> on_disk p) (src fp)))
                      (reached (\<lambda>p. disk w p \<noteq> None) (expandMapping c (disk w) pat ?D)))"
    if "\<not> (truthy (get o0 ''concat'') \<or> truthy (hasExt c t))"
  proof -
    from that have n: "\<not> truthy (get o0 ''concat'')" "\<not> truthy (hasExt c t)" by simp_all
    from expand_reached [OF assms(1) n, where pat = pat and w = w] show ?thesis
      by (simp only: m)
  qed
  from d one two show ?thesis by blast
qed

text \<open>
  A glob that builds its paths from the defaults: with \<^verbatim>\<open>cwd: 'docs'\<close> and
  \<^verbatim>\<open>glob: {cwd: 'lib', ext: '.txt'}\<close> the file read is the one under \<^verbatim>\<open>lib\<close> and the file
  written ends in \<^verbatim>\<open>.txt\<close>.
\<close>

theorem expand_glob_overrides_witness:
  "get with_glob ''glob'' = Obj [''cwd'' \<mapsto> Str ''lib'', ''ext'' \<mapsto> Str ''.txt'']
   \<and> (\<exists>D. D ''cwd'' = Some (Str ''lib'') \<and> D ''ext'' = Some (Str ''.txt'') \<and> D ''destBase'' = Some (Str ''out'')
        \<and> expandMapping project_glob (disk world_lib) (Str ''*.md'') D = [\<lparr>src = [''lib/a.md''], dest = ''out/a.txt''\<rparr>]
        \<and> (\<exists>w'. expand project_glob (Str ''*.md'') ''out'' with_glob world_lib = Returns w'
              \<and> map fst (writes (trace w')) = [''out/a.txt'']))
   \<and> and_then (expand project_glob (Str ''*.md'') ''out'' with_glob world_lib) (\<lambda>w. Returns (writes (trace w)))
       = Returns [(''out/a.txt'', ''gamma'')]"
proof -
  let ?g = "[''cwd'' \<mapsto> Str ''lib'', ''ext'' \<mapsto> Str ''.txt'']"
  have g: "get with_glob ''glob'' = Obj ?g" by (simp add: with_glob_def field_def)
  have n: "\<not> (truthy (get with_glob ''concat'') \<or> truthy (hasExt project_glob ''out''))"
    by (simp add: with_glob_def field_def project_glob_def project_def)
  from expand_glob_overrides [OF project_glob_fires g, where w = world_lib and t = "''out''" and pat = "Str ''*.md''"]
  obtain D where
    d: "\<forall>k. D k = (case ?g k of None \<Rightarrow> expand_base project_glob (vb world_lib) ''out'' (expand_opts with_glob) k
                     | Some x \<Rightarrow> Some x)"
    and r: "\<not> (truthy (get with_glob ''concat'') \<or> truthy (hasExt project_glob ''out'')) \<longrightarrow>
          (\<exists>w'. expand project_glob (Str ''*.md'') ''out'' with_glob world_lib = Returns w'
             \<and> map fst (writes (trace w')) = map fst (writes (trace world_lib))
                  @ concat (map (\<lambda>(fp, on_disk). map (\<lambda>p. dest fp) (filter on_disk (src fp)))
                      (reached (\<lambda>p. disk world_lib p \<noteq> None) (expandMapping project_glob (disk world_lib) (Str ''*.md'') D))))"
    by blast
  have k: "D ''cwd'' = Some (Str ''lib'')" "D ''ext'' = Some (Str ''.txt'')" "D ''destBase'' = Some (Str ''out'')"
    using d by (simp_all add: expand_base_def Let_def)
  have e: "expandMapping project_glob (disk world_lib) (Str ''*.md'') D = [\<lparr>src = [''lib/a.md''], dest = ''out/a.txt''\<rparr>]"
    using k by (simp add: project_glob_def field_def)
  from r n obtain w' where
    u: "expand project_glob (Str ''*.md'') ''out'' with_glob world_lib = Returns w'"
    and "map fst (writes (trace w')) = map fst (writes (trace world_lib))
        @ concat (map (\<lambda>(fp, on_disk). map (\<lambda>p. dest fp) (filter on_disk (src fp)))
            (reached (\<lambda>p. disk world_lib p \<noteq> None) (expandMapping project_glob (disk world_lib) (Str ''*.md'') D)))"
    by blast
  then have uw: "map fst (writes (trace w')) = [''out/a.txt'']"
    unfolding e by (simp add: world_lib_def)
  have x: "\<exists>w'. expand project_glob (Str ''*.md'') ''out'' with_glob world_lib = Returns w'
              \<and> map fst (writes (trace w')) = [''out/a.txt'']"
  proof (rule exI [of _ w'], rule conjI)
    show "expand project_glob (Str ''*.md'') ''out'' with_glob world_lib = Returns w'" by (rule u)
    show "map fst (writes (trace w')) = [''out/a.txt'']" by (rule uw)
  qed
  have run: "and_then (expand project_glob (Str ''*.md'') ''out'' with_glob world_lib) (\<lambda>w. Returns (writes (trace w)))
       = Returns [(''out/a.txt'', ''gamma'')]"
    by code_simp
  have dd: "\<exists>D. D ''cwd'' = Some (Str ''lib'') \<and> D ''ext'' = Some (Str ''.txt'') \<and> D ''destBase'' = Some (Str ''out'')
        \<and> expandMapping project_glob (disk world_lib) (Str ''*.md'') D = [\<lparr>src = [''lib/a.md''], dest = ''out/a.txt''\<rparr>]
        \<and> (\<exists>w'. expand project_glob (Str ''*.md'') ''out'' with_glob world_lib = Returns w'
              \<and> map fst (writes (trace w')) = [''out/a.txt''])"
  proof (rule exI [of _ D], intro conjI)
    show "D ''cwd'' = Some (Str ''lib'')" by (rule k(1))
    show "D ''ext'' = Some (Str ''.txt'')" by (rule k(2))
    show "D ''destBase'' = Some (Str ''out'')" by (rule k(3))
    show "expandMapping project_glob (disk world_lib) (Str ''*.md'') D = [\<lparr>src = [''lib/a.md''], dest = ''out/a.txt''\<rparr>]"
      by (rule e)
    show "\<exists>w'. expand project_glob (Str ''*.md'') ''out'' with_glob world_lib = Returns w'
              \<and> map fst (writes (trace w')) = [''out/a.txt'']" by (rule x)
  qed
  show ?thesis
    by (intro conjI) (rule g, rule dd, rule run)
qed

text \<open>
  Claim C7, the \<^verbatim>\<open>ext\<close> option. Line 278 reads \<^verbatim>\<open>verb.ext || opts.ext\<close>: the built-in
  \<^verbatim>\<open>.md\<close> is truthy and comes first, so the extension the caller asks for never reaches the
  mapping defaults. With the module as loaded and the option \<^verbatim>\<open>ext: '.html'\<close>, the defaults
  hold \<^verbatim>\<open>.md\<close>.
\<close>

theorem expand_ext_option_ignored:
  "expand_defaults c verb0 t (expand_opts (Obj [''ext'' \<mapsto> Str ''.html''])) ''ext'' = Some (Str ''.md'')"
  by (simp add: expand_defaults_def expand_base_def expand_opts_def Let_def js_or_def field_def verb0_def)

end
